theory Spec2Isabelle
  imports Main "HOL-Library.AList" "HOL-Library.Sublist" "HOL-Library.List_Lexorder" "HOL-Library.Char_ord"
begin

section \<open>JavaScript strings\<close>

text \<open>
  Strings of the server are modelled as HOL strings: a character is a code unit below 256,
  read as the code point of that number, and a string with any other code unit is not a
  value of the model. A value that JavaScript treats as falsy where a string is expected
  (\<^verbatim>\<open>undefined\<close>, \<^verbatim>\<open>null\<close>, the empty string) is the empty string here, so
  \<^verbatim>\<open>a || b\<close> on such values is \<open>js_or a b\<close>.
\<close>

definition js_or :: "string \<Rightarrow> string \<Rightarrow> string" where
  "js_or a b = (if a = [] then b else a)"

text \<open>
  \<^verbatim>\<open>toLowerCase\<close>: among the code points below 256 the capitals are \<^verbatim>\<open>A\<close> to \<^verbatim>\<open>Z\<close>
  (65 to 90) and the capitals of Latin-1 (192 to 222, without the multiplication sign
  215); each has its small letter 32 places further.
\<close>

definition lower_char :: "char \<Rightarrow> char" where
  "lower_char c =
     (let n = (of_char c :: nat)
      in if (65 \<le> n \<and> n \<le> 90) \<or> (192 \<le> n \<and> n \<le> 222 \<and> n \<noteq> 215)
         then char_of (n + 32) else c)"

definition toLowerCase :: "string \<Rightarrow> string" where
  "toLowerCase s = map lower_char s"

text \<open>\<^verbatim>\<open>hay.includes(needle)\<close>: the needle occurs as a contiguous run.\<close>

fun includes_str :: "string \<Rightarrow> string \<Rightarrow> bool" where
  "includes_str [] needle = (needle = [])"
| "includes_str (c # cs) needle = (prefix needle (c # cs) \<or> includes_str cs needle)"

text \<open>\<^verbatim>\<open>trim\<close> removes white space and line terminators: below 256 these are tab, line
  feed, vertical tab, form feed, carriage return (9 to 13), space (32) and the no-break
  space (160).\<close>

definition is_space :: "char \<Rightarrow> bool" where
  "is_space c = (let n = (of_char c :: nat) in (9 \<le> n \<and> n \<le> 13) \<or> n = 32 \<or> n = 160)"

definition trim :: "string \<Rightarrow> string" where
  "trim s = rev (dropWhile is_space (rev (dropWhile is_space s)))"

text \<open>\<^verbatim>\<open>s.split('@')[0]\<close>: the part before the first \<^verbatim>\<open>@\<close>.\<close>

definition before_at :: "string \<Rightarrow> string" where
  "before_at s = takeWhile (\<lambda>c. c \<noteq> CHR ''@'') s"

section \<open>Events and the events table\<close>

datatype event_type = JOIN | LEAVE | CERTIFICATE

text \<open>The event object built by \<^verbatim>\<open>createEvent\<close> and sent to the WebSocket clients.\<close>

record event =
  e_timestamp :: string
  e_type :: event_type
  e_memberName :: string
  e_memberId :: string
  e_groupId :: string
  e_groupName :: string

text \<open>
  A row of the table \<^verbatim>\<open>events\<close>. The columns \<^verbatim>\<open>id\<close> (autoincrement) and
  \<^verbatim>\<open>created_at\<close> are never read by the code modelled here and are left out. The table is
  the list of its rows in insertion order.
\<close>

record event_row =
  ev_group_id :: string
  ev_group_name :: string
  ev_member_id :: string
  ev_member_name :: string
  ev_type :: event_type
  ev_timestamp :: string
  ev_date :: string

text \<open>The row inserted for an event: \<^verbatim>\<open>date\<close> is \<^verbatim>\<open>timestamp.substring(0, 10)\<close>.\<close>

definition row_of :: "event \<Rightarrow> event_row" where
  "row_of ev = \<lparr> ev_group_id = e_groupId ev, ev_group_name = e_groupName ev,
      ev_member_id = e_memberId ev, ev_member_name = e_memberName ev,
      ev_type = e_type ev, ev_timestamp = e_timestamp ev,
      ev_date = take 10 (e_timestamp ev) \<rparr>"

text \<open>
  The server writes an event with two statements. \<^verbatim>\<open>db.run(sql, params, callback)\<close>
  hands the \<^verbatim>\<open>DELETE\<close> to the database and returns; the \<^verbatim>\<open>INSERT\<close> is issued by the
  callback, which runs once the \<^verbatim>\<open>DELETE\<close> has completed. There are two forms of the
  \<^verbatim>\<open>DELETE\<close>:

    \<^item> for JOIN and LEAVE events (\<^verbatim>\<open>checkMessages\<close>, the \<^verbatim>\<open>group_join\<close> and
      \<^verbatim>\<open>group_leave\<close> handlers, the notification branch of \<^verbatim>\<open>processMessage\<close>)
      \<^verbatim>\<open>DELETE FROM events WHERE group_id = ? AND member_id = ? AND type = ?\<close>;

    \<^item> for CERTIFICATE events (\<^verbatim>\<open>processMessage\<close>)
      \<^verbatim>\<open>DELETE FROM events WHERE group_id = ? AND member_id = ? AND type = 'CERTIFICATE' AND date = ?\<close>.
\<close>

datatype statement =
    DeleteMember event
  | DeleteCertificate event
  | InsertEvent event_row

text \<open>What a statement does to the table when the database executes it.\<close>

fun execute :: "statement \<Rightarrow> event_row list \<Rightarrow> event_row list" where
  "execute (DeleteMember ev) tbl =
     filter (\<lambda>r. \<not> (ev_group_id r = e_groupId ev \<and> ev_member_id r = e_memberId ev
                      \<and> ev_type r = e_type ev)) tbl"
| "execute (DeleteCertificate ev) tbl =
     filter (\<lambda>r. \<not> (ev_group_id r = e_groupId ev \<and> ev_member_id r = e_memberId ev
                      \<and> ev_type r = CERTIFICATE \<and> ev_date r = take 10 (e_timestamp ev))) tbl"
| "execute (InsertEvent r) tbl = tbl @ [r]"

text \<open>The statements that the completion callback of a statement issues. The \<^verbatim>\<open>INSERT\<close>
  of a CERTIFICATE event binds the literal \<^verbatim>\<open>'CERTIFICATE'\<close> as its type; an \<^verbatim>\<open>INSERT\<close>
  has no callback.\<close>

fun callback :: "statement \<Rightarrow> statement list" where
  "callback (DeleteMember ev) = [InsertEvent (row_of ev)]"
| "callback (DeleteCertificate ev) = [InsertEvent (row_of (ev\<lparr>e_type := CERTIFICATE\<rparr>))]"
| "callback (InsertEvent r) = []"

text \<open>
  The database: the rows of the table \<^verbatim>\<open>events\<close> and the statements that were issued and
  have not completed, in the order of issue. The server never calls \<^verbatim>\<open>db.serialize\<close>
  outside the creation of the tables, so the pending statements may complete in any
  order: \<open>db_complete i\<close> is the completion of the pending statement at position \<open>i\<close>,
  which executes it and runs its callback. A callback only issues a statement, so a
  statement that executes between another statement and its callback is one that
  completes before it or after it.
\<close>

record database =
  stored :: "event_row list"
  pending :: "statement list"

definition db_run :: "statement \<Rightarrow> database \<Rightarrow> database" where
  "db_run st db = db\<lparr>pending := pending db @ [st]\<rparr>"

definition db_complete :: "nat \<Rightarrow> database \<Rightarrow> database" where
  "db_complete i db =
     (if i < length (pending db) then
        \<lparr> stored = execute (pending db ! i) (stored db),
          pending = take i (pending db) @ drop (Suc i) (pending db) @ callback (pending db ! i) \<rparr>
      else db)"

text \<open>
  The statement pair of one event on a database with no other statement pending: the
  \<^verbatim>\<open>DELETE\<close> is issued and completes, its callback issues the \<^verbatim>\<open>INSERT\<close>, and the
  \<^verbatim>\<open>INSERT\<close> completes. The passes below write their events this way: each pair is
  taken to have completed before the server handles its next event.
\<close>

definition runPair :: "statement \<Rightarrow> event_row list \<Rightarrow> event_row list" where
  "runPair st tbl = stored (db_complete 0 (db_complete 0 (db_run st \<lparr> stored = tbl, pending = [] \<rparr>)))"

definition saveMemberEvent :: "event \<Rightarrow> event_row list \<Rightarrow> event_row list" where
  "saveMemberEvent ev tbl = runPair (DeleteMember ev) tbl"

definition saveCertificate :: "event \<Rightarrow> event_row list \<Rightarrow> event_row list" where
  "saveCertificate ev tbl = runPair (DeleteCertificate ev) tbl"

text \<open>Every path of the server writes an event with the \<^verbatim>\<open>DELETE\<close> of its type.\<close>

definition storeStatement :: "event \<Rightarrow> statement" where
  "storeStatement ev =
     (case e_type ev of CERTIFICATE \<Rightarrow> DeleteCertificate ev | _ \<Rightarrow> DeleteMember ev)"

text \<open>Events processed one after another, the pair of each completed before the next
  event is handled.\<close>

definition storeEvent :: "event_row list \<Rightarrow> event \<Rightarrow> event_row list" where
  "storeEvent tbl ev =
     (case e_type ev of CERTIFICATE \<Rightarrow> saveCertificate ev tbl | _ \<Rightarrow> saveMemberEvent ev tbl)"

definition processEvents :: "event list \<Rightarrow> event_row list \<Rightarrow> event_row list" where
  "processEvents evs tbl = foldl storeEvent tbl evs"

text \<open>
  In general the server handles an event, which issues its \<^verbatim>\<open>DELETE\<close>, while statements
  of earlier events are still pending. A history of the database is a list of such steps:
  the server handles an event, or the pending statement at some position completes.
\<close>

datatype action = Handle event | Completes nat

fun dbStep :: "database \<Rightarrow> action \<Rightarrow> database" where
  "dbStep db (Handle ev) = db_run (storeStatement ev) db"
| "dbStep db (Completes i) = db_complete i db"

definition history :: "action list \<Rightarrow> event_row list \<Rightarrow> database" where
  "history acts tbl = foldl dbStep \<lparr> stored = tbl, pending = [] \<rparr> acts"


text \<open>The four-part key of a stored row and of an event.\<close>

definition row_key :: "event_row \<Rightarrow> string \<times> string \<times> event_type \<times> string" where
  "row_key r = (ev_group_id r, ev_member_id r, ev_type r, ev_date r)"


section \<open>Messages and the messages table\<close>

text \<open>The object \<^verbatim>\<open>processMessage\<close> returns.\<close>

record processed =
  p_id :: string
  p_timestamp :: string
  p_sender :: string
  p_senderId :: string
  p_message :: string
  p_type :: string
  p_hasMedia :: bool
  p_groupId :: string
  p_groupName :: string

text \<open>A row of the table \<^verbatim>\<open>messages\<close> (\<^verbatim>\<open>created_at\<close> left out); \<^verbatim>\<open>id\<close> is its
  primary key.\<close>

record message_row =
  m_id :: string
  m_group_id :: string
  m_group_name :: string
  m_sender :: string
  m_sender_id :: string
  m_message :: string
  m_timestamp :: string

text \<open>The parameters \<^verbatim>\<open>insertStmt.run\<close> binds for a processed message.\<close>

definition message_row_of :: "processed \<Rightarrow> message_row" where
  "message_row_of msg = \<lparr> m_id = p_id msg, m_group_id = p_groupId msg,
      m_group_name = p_groupName msg, m_sender = p_sender msg, m_sender_id = p_senderId msg,
      m_message = p_message msg, m_timestamp = p_timestamp msg \<rparr>"

text \<open>
  \<^verbatim>\<open>INSERT OR REPLACE INTO messages\<close>: on a conflict with the primary key SQLite deletes
  the row that holds the id and then inserts the new row.
\<close>

definition insertOrReplace :: "message_row list \<Rightarrow> message_row \<Rightarrow> message_row list" where
  "insertOrReplace tbl row = filter (\<lambda>r. m_id r \<noteq> m_id row) tbl @ [row]"

section \<open>What the WhatsApp client answers\<close>

text \<open>A contact; a field that is missing is the empty string. \<open>c_user\<close> is
  \<^verbatim>\<open>contact.id.user\<close>.\<close>

record contact =
  c_user :: string
  c_number :: string
  c_pushname :: string
  c_name :: string
  c_verifiedName :: string

type_synonym contacts = "string \<Rightarrow> contact option"

text \<open>
  A message of \<^verbatim>\<open>fetchMessages\<close>. \<open>wm_timestamp\<close> is
  \<^verbatim>\<open>new Date(msg.timestamp * 1000).toISOString()\<close>, \<open>None\<close> when the date is invalid and
  \<^verbatim>\<open>toISOString\<close> throws; \<open>wm_contact\<close> is the answer of \<^verbatim>\<open>msg.getContact()\<close>,
  \<open>None\<close> when it throws.
\<close>

record wa_message =
  wm_id :: string
  wm_timestamp :: "string option"
  wm_type :: string
  wm_subtype :: string
  wm_body :: string
  wm_author :: string
  wm_hasMedia :: bool
  wm_recipientIds :: "string list"
  wm_contact :: "contact option"

text \<open>A chat of \<^verbatim>\<open>getChats\<close>; \<open>ch_participants\<close> is \<open>None\<close> when the chat has no
  \<^verbatim>\<open>participants\<close>.\<close>

record chat =
  ch_id :: string
  ch_name :: string
  ch_isGroup :: bool
  ch_participants :: "string list option"

text \<open>
  The answers of the client during one pass of \<^verbatim>\<open>checkMessages\<close>: \<open>None\<close> stands for a
  call that throws. \<open>now\<close> is the clock reading \<^verbatim>\<open>new Date().toISOString()\<close> of
  \<^verbatim>\<open>createEvent\<close> when it is called for a member; a pass calls it at most once for a
  member.
\<close>

record observation =
  getChats :: "chat list option"
  fetchMessages :: "wa_message list option"
  getContactById :: contacts
  now :: "string \<Rightarrow> string"

text \<open>The values of \<^verbatim>\<open>config.json\<close> that the passes read.\<close>

record config =
  MESSAGE_LIMIT :: nat
  DETECT_JOINS_LEAVES :: bool

section \<open>The state of the server\<close>

text \<open>An entry of \<^verbatim>\<open>groupInfoStore\<close>.\<close>

record group_data =
  gd_id :: string
  gd_name :: string
  memberCount :: nat

text \<open>
  An entry of \<^verbatim>\<open>monitoredGroups\<close>. A JavaScript \<^verbatim>\<open>Set\<close> iterates in insertion order,
  so the two sets are lists without repetition, oldest element first.
\<close>

record group_info =
  gi_name :: string
  gi_id :: string
  previousMessageIds :: "string list"
  previousMembers :: "string list"
  isFirstRun :: bool

text \<open>\<^verbatim>\<open>set.add(x)\<close> and \<^verbatim>\<open>new Set(xs)\<close>.\<close>

definition set_add :: "'a list \<Rightarrow> 'a \<Rightarrow> 'a list" where
  "set_add s x = (if x \<in> set s then s else s @ [x])"

definition new_Set :: "'a list \<Rightarrow> 'a list" where
  "new_Set xs = foldl set_add [] xs"

text \<open>What \<^verbatim>\<open>broadcast\<close> is called with.\<close>

datatype envelope = EventEnv event | MessageEnv processed | GroupAddedEnv group_data

text \<open>
  The state every pass shares: the map \<^verbatim>\<open>groupInfoStore\<close> (in insertion order), the two
  tables, and the envelopes handed to \<^verbatim>\<open>broadcast\<close> so far, oldest first.
\<close>

record world =
  groupInfoStore :: "(string \<times> group_data) list"
  db_messages :: "message_row list"
  db_events :: "event_row list"
  sent :: "envelope list"

definition broadcast :: "envelope \<Rightarrow> world \<Rightarrow> world" where
  "broadcast data w = w\<lparr>sent := sent w @ [data]\<rparr>"

section \<open>createEvent and processMessage\<close>

text \<open>\<^verbatim>\<open>(contact.id && contact.id.user) ? contact.id.user : (contact.number || fallback)\<close>\<close>

definition contactPhone :: "contact \<Rightarrow> string \<Rightarrow> string" where
  "contactPhone c fallback = (if c_user c \<noteq> [] then c_user c else js_or (c_number c) fallback)"

text \<open>\<^verbatim>\<open>contact.pushname || contact.name || contact.verifiedName || phone\<close>\<close>

definition contactName :: "contact \<Rightarrow> string \<Rightarrow> string" where
  "contactName c phone = js_or (c_pushname c) (js_or (c_name c) (js_or (c_verifiedName c) phone))"

text \<open>\<^verbatim>\<open>createEvent\<close> never returns \<^verbatim>\<open>null\<close>: a failed contact lookup gives the name
  \<^verbatim>\<open>'Unknown'\<close>.\<close>

definition createEvent ::
    "contacts \<Rightarrow> string \<Rightarrow> string \<Rightarrow> event_type \<Rightarrow> string \<Rightarrow> string \<Rightarrow> event" where
  "createEvent lookup clock memberId eventType groupName groupId =
     \<lparr> e_timestamp = clock, e_type = eventType,
       e_memberName = (case lookup memberId of
            Some c \<Rightarrow> contactName c (contactPhone c (before_at memberId))
          | None \<Rightarrow> ''Unknown''),
       e_memberId = memberId, e_groupId = groupId, e_groupName = groupName \<rparr>"

text \<open>
  The \<^verbatim>\<open>DELETE\<close>/\<^verbatim>\<open>INSERT\<close> pair of an event and its broadcast, as a pass performs them.
  A pass is modelled with a database that has completed the pair of an event when the
  server handles the next one (\<open>runPair\<close>); the histories in which pairs are pending
  together are those of \<open>history\<close>.
\<close>

definition emitMemberEvent :: "event \<Rightarrow> world \<Rightarrow> world" where
  "emitMemberEvent ev w = broadcast (EventEnv ev) (w\<lparr>db_events := saveMemberEvent ev (db_events w)\<rparr>)"

definition emitCertificate :: "event \<Rightarrow> world \<Rightarrow> world" where
  "emitCertificate ev w = broadcast (EventEnv ev) (w\<lparr>db_events := saveCertificate ev (db_events w)\<rparr>)"

definition is_notification :: "string \<Rightarrow> bool" where
  "is_notification t =
     (t = ''notification'' \<or> t = ''notification_template'' \<or> t = ''group_notification'')"

definition notificationType :: "string \<Rightarrow> event_type option" where
  "notificationType subtype =
     (if subtype = ''add'' \<or> subtype = ''invite'' \<or> subtype = ''group_invite_link'' then Some JOIN
      else if subtype = ''remove'' \<or> subtype = ''leave'' then Some LEAVE
      else None)"

text \<open>
  \<^verbatim>\<open>processMessage\<close>. Its \<^verbatim>\<open>catch\<close> returns \<^verbatim>\<open>null\<close>; the one throw of the model is
  \<^verbatim>\<open>toISOString\<close> on an invalid date, which every path reaches before it writes
  anything. The notification branch comes first (\<^verbatim>\<open>sender: 'System'\<close>), then the regular
  messages, where a voice recording (\<^verbatim>\<open>ptt\<close>, \<^verbatim>\<open>audio\<close>) also stores a CERTIFICATE event.
  Here the broadcast of an event is issued from the completion callback of its
  \<^verbatim>\<open>DELETE\<close>; as the pair is complete where it is issued, so is the broadcast.
\<close>

definition processMessage ::
    "contacts \<Rightarrow> wa_message \<Rightarrow> string \<Rightarrow> string \<Rightarrow> world \<Rightarrow> processed option \<times> world" where
  "processMessage lookup msg groupName groupId w =
     (case wm_timestamp msg of
        None \<Rightarrow> (None, w)
      | Some ts \<Rightarrow>
          if is_notification (wm_type msg) then
            (case wm_recipientIds msg of
               [] \<Rightarrow>
                 (Some \<lparr> p_id = wm_id msg, p_timestamp = ts, p_sender = ''System'',
                    p_senderId = [], p_message = js_or (wm_body msg) ''Group notification'',
                    p_type = wm_type msg, p_hasMedia = False,
                    p_groupId = groupId, p_groupName = groupName \<rparr>, w)
             | memberId # _ \<Rightarrow>
                 (let memberName = (case lookup memberId of
                          Some c \<Rightarrow> contactName c (contactPhone c (before_at memberId))
                        | None \<Rightarrow> before_at memberId);
                      eventType = notificationType (wm_subtype msg);
                      blank = (trim (wm_body msg) = []);
                      notificationMessage =
                        (if eventType = Some JOIN \<and> blank then
                           (if wm_subtype msg = ''group_invite_link''
                            then memberName @ '' joined via group link''
                            else memberName @ '' joined'')
                         else if eventType = Some LEAVE \<and> blank then memberName @ '' left''
                         else js_or (wm_body msg) ''Group notification'');
                      w' = (case eventType of
                          None \<Rightarrow> w
                        | Some t \<Rightarrow>
                            if memberId \<noteq> [] then
                              emitMemberEvent \<lparr> e_timestamp = ts, e_type = t,
                                e_memberName = memberName, e_memberId = memberId,
                                e_groupId = groupId, e_groupName = groupName \<rparr> w
                            else w)
                  in (Some \<lparr> p_id = wm_id msg, p_timestamp = ts, p_sender = ''System'',
                        p_senderId = [],
                        p_message = js_or notificationMessage ''Group notification'',
                        p_type = wm_type msg, p_hasMedia = False,
                        p_groupId = groupId, p_groupName = groupName \<rparr>, w')))
          else
            (let senderId = wm_author msg;
                 senderPhone =
                   (if wm_author msg \<noteq> [] then
                      (case wm_contact msg of
                         Some c \<Rightarrow> contactPhone c (before_at (wm_author msg))
                       | None \<Rightarrow> before_at (wm_author msg))
                    else ''Unknown'');
                 senderName =
                   (if wm_author msg \<noteq> [] then
                      (case wm_contact msg of
                         Some c \<Rightarrow> contactName c senderPhone
                       | None \<Rightarrow> senderPhone)
                    else ''Unknown'');
                 w' = (if wm_type msg = ''ptt'' \<or> wm_type msg = ''audio'' then
                         emitCertificate \<lparr> e_timestamp = ts, e_type = CERTIFICATE,
                           e_memberName = senderName, e_memberId = js_or senderPhone senderId,
                           e_groupId = groupId, e_groupName = groupName \<rparr> w
                       else w);
                 body = (if wm_hasMedia msg
                         then js_or (wm_body msg) (''<'' @ wm_type msg @ ''>'')
                         else wm_body msg);
                 senderDisplay =
                   (if senderPhone \<noteq> [] \<and> senderName \<noteq> senderPhone
                    then senderName @ '' ('' @ senderPhone @ '')''
                    else if senderPhone \<noteq> [] then senderPhone
                    else senderName)
             in (Some \<lparr> p_id = wm_id msg, p_timestamp = ts, p_sender = senderDisplay,
                   p_senderId = wm_author msg, p_message = body, p_type = wm_type msg,
                   p_hasMedia = wm_hasMedia msg, p_groupId = groupId, p_groupName = groupName \<rparr>,
                 w')))"

section \<open>One pass over one group: checkMessages\<close>

text \<open>The two loops over the members. \<^verbatim>\<open>previousMembers\<close> is replaced only after both.\<close>

definition detectJoins :: "observation \<Rightarrow> string \<Rightarrow> group_info \<Rightarrow> string list \<Rightarrow> world \<Rightarrow> world" where
  "detectJoins obs groupId groupInfo currentMembers w =
     foldl (\<lambda>w' memberId.
        if memberId \<notin> set (previousMembers groupInfo) \<and> \<not> isFirstRun groupInfo
        then emitMemberEvent
               (createEvent (getContactById obs) (now obs memberId) memberId JOIN (gi_name groupInfo) groupId) w'
        else w') w currentMembers"

definition detectLeaves :: "observation \<Rightarrow> string \<Rightarrow> group_info \<Rightarrow> string list \<Rightarrow> world \<Rightarrow> world" where
  "detectLeaves obs groupId groupInfo currentMembers w =
     foldl (\<lambda>w' memberId.
        if memberId \<notin> set currentMembers \<and> \<not> isFirstRun groupInfo
        then emitMemberEvent
               (createEvent (getContactById obs) (now obs memberId) memberId LEAVE (gi_name groupInfo) groupId) w'
        else w') w (previousMembers groupInfo)"

text \<open>\<^verbatim>\<open>groupData.memberCount = currentMembers.size\<close>, when the group is in
  \<^verbatim>\<open>groupInfoStore\<close>.\<close>

definition updateMemberCount ::
    "string \<Rightarrow> nat \<Rightarrow> (string \<times> group_data) list \<Rightarrow> (string \<times> group_data) list" where
  "updateMemberCount groupId n store =
     (case map_of store groupId of
        None \<Rightarrow> store
      | Some groupData \<Rightarrow> AList.update groupId (groupData\<lparr>memberCount := n\<rparr>) store)"

text \<open>The block guarded by \<^verbatim>\<open>DETECT_JOINS_LEAVES && group.participants\<close>.\<close>

definition memberChanges ::
    "config \<Rightarrow> observation \<Rightarrow> string \<Rightarrow> chat \<Rightarrow> group_info \<Rightarrow> world \<Rightarrow> group_info \<times> world" where
  "memberChanges cfg obs groupId theGroup groupInfo w =
     (case ch_participants theGroup of
        None \<Rightarrow> (groupInfo, w)
      | Some participants \<Rightarrow>
          if DETECT_JOINS_LEAVES cfg then
            (let currentMembers = new_Set participants;
                 w1 = detectJoins obs groupId groupInfo currentMembers w;
                 w2 = detectLeaves obs groupId groupInfo currentMembers w1;
                 w3 = w2\<lparr>groupInfoStore :=
                         updateMemberCount groupId (length currentMembers) (groupInfoStore w2)\<rparr>
             in (groupInfo\<lparr>previousMembers := currentMembers\<rparr>, w3))
          else (groupInfo, w))"

text \<open>
  The loop that detects new messages: a message is new when its id is not in
  \<^verbatim>\<open>previousMessageIds\<close> at that moment, and its id is then added. The result is
  \<^verbatim>\<open>newMessages\<close> and the set of ids after the loop.
\<close>

fun detectNew :: "wa_message list \<Rightarrow> string list \<Rightarrow> wa_message list \<times> string list" where
  "detectNew [] ids = ([], ids)"
| "detectNew (msg # rest) ids =
     (if wm_id msg \<notin> set ids
      then (case detectNew rest (ids @ [wm_id msg]) of (newMessages, ids') \<Rightarrow> (msg # newMessages, ids'))
      else detectNew rest ids)"

text \<open>The loop that builds \<^verbatim>\<open>processedMessages\<close>, leaving out the \<^verbatim>\<open>null\<close> results.\<close>

fun processAll ::
    "contacts \<Rightarrow> wa_message list \<Rightarrow> string \<Rightarrow> string \<Rightarrow> world \<Rightarrow> processed list \<times> world" where
  "processAll lookup [] groupName groupId w = ([], w)"
| "processAll lookup (msg # rest) groupName groupId w =
     (case processMessage lookup msg groupName groupId w of
        (r, w1) \<Rightarrow>
          (case processAll lookup rest groupName groupId w1 of
             (rs, w2) \<Rightarrow> ((case r of None \<Rightarrow> rs | Some p \<Rightarrow> p # rs), w2)))"

definition saveMessages :: "processed list \<Rightarrow> message_row list \<Rightarrow> message_row list" where
  "saveMessages processedMessages tbl =
     foldl (\<lambda>t msg. insertOrReplace t (message_row_of msg)) tbl processedMessages"

text \<open>The loop that broadcasts the new messages; it calls \<^verbatim>\<open>processMessage\<close> again.\<close>

fun broadcastNew :: "contacts \<Rightarrow> wa_message list \<Rightarrow> string \<Rightarrow> string \<Rightarrow> world \<Rightarrow> world" where
  "broadcastNew lookup [] groupName groupId w = w"
| "broadcastNew lookup (msg # rest) groupName groupId w =
     (case processMessage lookup msg groupName groupId w of
        (None, w1) \<Rightarrow> broadcastNew lookup rest groupName groupId w1
      | (Some p, w1) \<Rightarrow> broadcastNew lookup rest groupName groupId (broadcast (MessageEnv p) w1))"

text \<open>\<^verbatim>\<open>if (size > 100) previousMessageIds = new Set(idsArray.slice(-100))\<close>\<close>

definition trimIds :: "string list \<Rightarrow> string list" where
  "trimIds ids = (if length ids > 100 then drop (length ids - 100) ids else ids)"

text \<open>Everything after \<^verbatim>\<open>fetchMessages\<close> has answered.\<close>

definition messageChanges ::
    "observation \<Rightarrow> string \<Rightarrow> wa_message list \<Rightarrow> group_info \<Rightarrow> world \<Rightarrow> group_info \<times> world" where
  "messageChanges obs groupId messages groupInfo w =
     (case detectNew messages (previousMessageIds groupInfo) of
        (newMessages, ids) \<Rightarrow>
          (let gi1 = groupInfo\<lparr>previousMessageIds := ids\<rparr>;
               (gi2, w2) =
                 (if newMessages \<noteq> [] \<or> isFirstRun gi1 then
                    (case processAll (getContactById obs) messages (gi_name gi1) groupId w of
                       (processedMessages, wa) \<Rightarrow>
                         (let wb = wa\<lparr>db_messages := saveMessages processedMessages (db_messages wa)\<rparr>;
                              wc = (if \<not> isFirstRun gi1
                                    then broadcastNew (getContactById obs) newMessages (gi_name gi1) groupId wb
                                    else wb)
                          in (gi1\<lparr>isFirstRun := False\<rparr>, wc)))
                  else (gi1, w))
           in (gi2\<lparr>previousMessageIds := trimIds (previousMessageIds gi2)\<rparr>, w2)))"

text \<open>
  \<^verbatim>\<open>checkMessages(groupId, groupInfo)\<close>. A call of the client that throws ends the pass
  in the \<^verbatim>\<open>catch\<close>, which only logs: what was written before the throw stays written.
\<close>

definition checkMessages ::
    "config \<Rightarrow> observation \<Rightarrow> string \<Rightarrow> group_info \<Rightarrow> world \<Rightarrow> group_info \<times> world" where
  "checkMessages cfg obs groupId groupInfo w =
     (case getChats obs of
        None \<Rightarrow> (groupInfo, w)
      | Some chats \<Rightarrow>
          (case find (\<lambda>c. ch_id c = groupId) chats of
             None \<Rightarrow> (groupInfo, w)
           | Some theGroup \<Rightarrow>
               (case memberChanges cfg obs groupId theGroup groupInfo w of
                  (gi1, w1) \<Rightarrow>
                    (case fetchMessages obs of
                       None \<Rightarrow> (gi1, w1)
                     | Some messages \<Rightarrow> messageChanges obs groupId messages gi1 w1))))"

section \<open>One tick: checkAllGroups\<close>

text \<open>
  \<^verbatim>\<open>for (const [groupId, groupInfo] of monitoredGroups) await checkMessages(groupId, groupInfo)\<close>:
  the groups in the order of the map, each pass with the answers the client gives for that
  group.
\<close>

fun checkGroups ::
    "config \<Rightarrow> (string \<Rightarrow> observation) \<Rightarrow> (string \<times> group_info) list \<Rightarrow> world
     \<Rightarrow> (string \<times> group_info) list \<times> world" where
  "checkGroups cfg obs [] w = ([], w)"
| "checkGroups cfg obs ((groupId, groupInfo) # rest) w =
     (case checkMessages cfg (obs groupId) groupId groupInfo w of
        (gi', w1) \<Rightarrow>
          (case checkGroups cfg obs rest w1 of
             (rest', w2) \<Rightarrow> ((groupId, gi') # rest', w2)))"

record server =
  monitoredGroups :: "(string \<times> group_info) list"
  shared :: world
  isClientReady :: bool
  configGroups :: "string list"



section \<open>Adding a group: POST /api/groups\<close>

text \<open>The replies of the handler, by HTTP status.\<close>

datatype reply =
    BadRequest400
  | NotReady503
  | AlreadyMonitored409
  | NotFound404
  | Added200 group_data
  | Failed500

text \<open>
  \<open>chats\<close> is the answer of the handler's own \<^verbatim>\<open>client.getChats()\<close> (\<open>None\<close> when it
  throws, which the handler's \<^verbatim>\<open>catch\<close> turns into status 500), \<open>obs\<close> the answers during
  the pass that the handler runs at once on the new group. The check for a group that is
  monitored already compares the whole names, in lower case; the search for the group takes
  the first chat whose name contains the requested name. The object stored in
  \<^verbatim>\<open>groupInfoStore\<close> is the one the reply carries, so the reply shows the member count the
  pass has written. Reading and writing \<^verbatim>\<open>config.json\<close> is taken to succeed.
\<close>

definition addGroup ::
    "config \<Rightarrow> chat list option \<Rightarrow> observation \<Rightarrow> string \<Rightarrow> server \<Rightarrow> reply \<times> server" where
  "addGroup cfg chats obs name s =
     (if trim name = [] then (BadRequest400, s)
      else
        (let groupName = trim name in
         if \<not> isClientReady s then (NotReady503, s)
         else if find (\<lambda>g. toLowerCase (gd_name g) = toLowerCase groupName)
                   (map snd (groupInfoStore (shared s))) \<noteq> None
           then (AlreadyMonitored409, s)
         else
           (case chats of
              None \<Rightarrow> (Failed500, s)
            | Some cs \<Rightarrow>
                (case find (\<lambda>c. ch_isGroup c \<and> ch_name c \<noteq> []
                               \<and> includes_str (toLowerCase (ch_name c)) (toLowerCase groupName)) cs of
                   None \<Rightarrow> (NotFound404, s)
                 | Some theGroup \<Rightarrow>
                     (let groupId = ch_id theGroup;
                          members = (case ch_participants theGroup of Some ps \<Rightarrow> ps | None \<Rightarrow> []);
                          groupInfo = \<lparr> gd_id = groupId, gd_name = ch_name theGroup,
                                        memberCount = length members \<rparr>;
                          w1 = (shared s)\<lparr>groupInfoStore :=
                                  AList.update groupId groupInfo (groupInfoStore (shared s))\<rparr>;
                          groupData = \<lparr> gi_name = ch_name theGroup, gi_id = groupId,
                                        previousMessageIds = [], previousMembers = new_Set members,
                                        isFirstRun = True \<rparr>;
                          currentConfig = (if ch_name theGroup \<in> set (configGroups s)
                                           then configGroups s
                                           else configGroups s @ [ch_name theGroup])
                      in (case checkMessages cfg obs groupId groupData w1 of
                            (groupData', w2) \<Rightarrow>
                              (let groupInfo' = (case map_of (groupInfoStore w2) groupId of
                                                   Some g \<Rightarrow> g | None \<Rightarrow> groupInfo)
                               in (Added200 groupInfo',
                                   s\<lparr>monitoredGroups :=
                                        AList.update groupId groupData' (monitoredGroups s),
                                     shared := broadcast (GroupAddedEnv groupInfo') w2,
                                     configGroups := currentConfig\<rparr>))))))))"

section \<open>Searching: GET /api/search\<close>

text \<open>
  SQLite's \<^verbatim>\<open>LIKE\<close>: \<^verbatim>\<open>%\<close> matches any run of characters, \<^verbatim>\<open>_\<close> any one character,
  and the ASCII letters, and only these, match without regard to case. The handler puts
  the query between two \<^verbatim>\<open>%\<close> and does not escape it.
\<close>

definition lower_ascii :: "char \<Rightarrow> char" where
  "lower_ascii c =
     (let n = (of_char c :: nat) in if 65 \<le> n \<and> n \<le> 90 then char_of (n + 32) else c)"

fun like :: "string \<Rightarrow> string \<Rightarrow> bool" where
  "like [] s = (s = [])"
| "like (p # ps) [] = (p = CHR ''%'' \<and> like ps [])"
| "like (p # ps) (c # cs) =
     (if p = CHR ''%'' then like ps (c # cs) \<or> like (p # ps) cs
      else (p = CHR ''_'' \<or> lower_ascii p = lower_ascii c) \<and> like ps cs)"

text \<open>
  \<^verbatim>\<open>ORDER BY timestamp DESC\<close>: the timestamps are text and compared as such; rows of equal
  timestamp stay in the order of their insertion, which is the order of the list.
\<close>

definition orderByTimestampDesc :: "message_row list \<Rightarrow> message_row list" where
  "orderByTimestampDesc rows = rev (sort_key m_timestamp (rev rows))"

text \<open>
  The values \<^verbatim>\<open>parseInt\<close> returns: \<^verbatim>\<open>NaN\<close> for a parameter that is missing or does not
  start with a number, an integer, or an infinity for a run of digits beyond the range of
  the numbers.
\<close>

datatype js_number = NaN | Num int | PlusInfinity | MinusInfinity

text \<open>\<^verbatim>\<open>parseInt(req.query.limit) || 100\<close>: \<^verbatim>\<open>NaN\<close> and zero are falsy.\<close>

definition searchLimit :: "js_number \<Rightarrow> js_number" where
  "searchLimit param = (case param of NaN \<Rightarrow> Num 100 | Num n \<Rightarrow> if n = 0 then Num 100 else param
                        | _ \<Rightarrow> param)"

text \<open>
  The number bound to \<^verbatim>\<open>LIMIT ?\<close>. The driver binds a number that is not a 32-bit integer
  as a floating-point value, and SQLite takes such a value as a limit only when it
  converts to a 64-bit integer without loss and is neither the largest nor the smallest
  of them; otherwise the statement fails (\<^verbatim>\<open>datatype mismatch\<close>). \<open>None\<close> is that failure.
\<close>

definition boundLimit :: "js_number \<Rightarrow> int option" where
  "boundLimit v =
     (case v of Num n \<Rightarrow> if - (2 ^ 63) < n \<and> n < 2 ^ 63 then Some n else None | _ \<Rightarrow> None)"

text \<open>\<^verbatim>\<open>LIMIT\<close> with an integer: SQLite puts no bound on the rows when it is negative.\<close>

definition sqlLimit :: "int \<Rightarrow> 'a list \<Rightarrow> 'a list" where
  "sqlLimit n rows = (if n < 0 then rows else take (nat n) rows)"

text \<open>The rows the \<^verbatim>\<open>WHERE\<close> clause selects; an empty \<open>groupId\<close> is a request without
  that parameter.\<close>

definition searchMatches :: "message_row list \<Rightarrow> string \<Rightarrow> string \<Rightarrow> message_row list" where
  "searchMatches tbl query groupId =
     filter (\<lambda>r. (groupId = [] \<or> m_group_id r = groupId)
                 \<and> (like (''%'' @ query @ ''%'') (m_message r)
                    \<or> like (''%'' @ query @ ''%'') (m_sender r))) tbl"

record search_reply =
  results :: "message_row list"
  total :: nat
  hasMore :: bool

text \<open>The replies of the handler: status 400 to an empty query, status 500 when
  \<^verbatim>\<open>db.all\<close> reports an error, and the rows otherwise.\<close>

datatype search_result = SearchBadRequest400 | SearchFailed500 | SearchOk200 search_reply

text \<open>The handler. \<^verbatim>\<open>hasMore\<close> is \<^verbatim>\<open>rows.length === limit\<close>, a comparison of numbers.\<close>

definition search :: "message_row list \<Rightarrow> string \<Rightarrow> string \<Rightarrow> js_number \<Rightarrow> search_result" where
  "search tbl query groupId param =
     (let limit = searchLimit param in
      if query = [] then SearchBadRequest400
      else
        (case boundLimit limit of
           None \<Rightarrow> SearchFailed500
         | Some n \<Rightarrow>
             (let rows = sqlLimit n (orderByTimestampDesc (searchMatches tbl query groupId))
              in SearchOk200 \<lparr> results = rows, total = length rows,
                                hasMore = (limit = Num (int (length rows))) \<rparr>)))"

section \<open>The timer\<close>






section \<open>Vocabulary of the properties\<close>

text \<open>The events among a list of envelopes, in order.\<close>

fun sentEvents :: "envelope list \<Rightarrow> event list" where
  "sentEvents [] = []"
| "sentEvents (EventEnv ev # rest) = ev # sentEvents rest"
| "sentEvents (MessageEnv p # rest) = sentEvents rest"
| "sentEvents (GroupAddedEnv g # rest) = sentEvents rest"

text \<open>The envelopes broadcast between two states of the world (the later one second).\<close>

definition sentSince :: "world \<Rightarrow> world \<Rightarrow> envelope list" where
  "sentSince w w' = drop (length (sent w)) (sent w')"

text \<open>The events of one type about one member.\<close>

definition memberEventsOf :: "event_type \<Rightarrow> string \<Rightarrow> event list \<Rightarrow> event list" where
  "memberEventsOf t memberId evs = filter (\<lambda>ev. e_type ev = t \<and> e_memberId ev = memberId) evs"

text \<open>A pass completes when no call of the client throws and the group is among the
  chats; \<open>fetched\<close> are the messages it then works on.\<close>

definition completes :: "observation \<Rightarrow> string \<Rightarrow> bool" where
  "completes obs groupId =
     (case getChats obs of
        None \<Rightarrow> False
      | Some chats \<Rightarrow> find (\<lambda>c. ch_id c = groupId) chats \<noteq> None \<and> fetchMessages obs \<noteq> None)"

definition fetched :: "observation \<Rightarrow> wa_message list" where
  "fetched obs = (case fetchMessages obs of None \<Rightarrow> [] | Some messages \<Rightarrow> messages)"

definition noNotifications :: "observation \<Rightarrow> bool" where
  "noNotifications obs = list_all (\<lambda>msg. \<not> is_notification (wm_type msg)) (fetched obs)"

text \<open>The last \<open>n\<close> elements of a list (the whole list when it is shorter).\<close>

definition mostRecent :: "nat \<Rightarrow> 'a list \<Rightarrow> 'a list" where
  "mostRecent n xs = drop (length xs - n) xs"

text \<open>Successive passes over one group, one per tick.\<close>

fun runPasses ::
    "config \<Rightarrow> observation list \<Rightarrow> string \<Rightarrow> group_info \<Rightarrow> world \<Rightarrow> group_info \<times> world" where
  "runPasses cfg [] groupId groupInfo w = (groupInfo, w)"
| "runPasses cfg (obs # rest) groupId groupInfo w =
     (case checkMessages cfg obs groupId groupInfo w of
        (gi', w') \<Rightarrow> runPasses cfg rest groupId gi' w')"

text \<open>
  The ids that successive completed passes classify as new, in that order: each pass
  starts from the ids the pass before it has left in \<^verbatim>\<open>previousMessageIds\<close>.
\<close>

fun newIds :: "wa_message list list \<Rightarrow> string list \<Rightarrow> string list" where
  "newIds [] ids = []"
| "newIds (messages # rest) ids =
     map wm_id (fst (detectNew messages ids))
     @ newIds rest (trimIds (snd (detectNew messages ids)))"

text \<open>The JOIN and LEAVE events among a list of envelopes, and the JOIN and LEAVE rows of
  the events table.\<close>

definition joinLeaveEvents :: "envelope list \<Rightarrow> event list" where
  "joinLeaveEvents envs = filter (\<lambda>ev. e_type ev \<noteq> CERTIFICATE) (sentEvents envs)"

definition joinLeaveRows :: "event_row list \<Rightarrow> event_row list" where
  "joinLeaveRows tbl = filter (\<lambda>r. ev_type r \<noteq> CERTIFICATE) tbl"

text \<open>
  The columns by which the \<^verbatim>\<open>DELETE\<close> of an event selects the rows it removes: group,
  member and type for every event, and the date as well for a CERTIFICATE only.
\<close>

definition delete_key :: "event \<Rightarrow> string \<times> string \<times> event_type \<times> string option" where
  "delete_key ev = (e_groupId ev, e_memberId ev, e_type ev,
     if e_type ev = CERTIFICATE then Some (take 10 (e_timestamp ev)) else None)"

definition row_delete_key :: "event_row \<Rightarrow> string \<times> string \<times> event_type \<times> string option" where
  "row_delete_key r = (ev_group_id r, ev_member_id r, ev_type r,
     if ev_type r = CERTIFICATE then Some (ev_date r) else None)"

text \<open>The same columns for a pending statement: those of the rows a \<^verbatim>\<open>DELETE\<close> removes,
  and those of the row an \<^verbatim>\<open>INSERT\<close> adds.\<close>

fun statement_key :: "statement \<Rightarrow> string \<times> string \<times> event_type \<times> string option" where
  "statement_key (DeleteMember ev) = (e_groupId ev, e_memberId ev, e_type ev, None)"
| "statement_key (DeleteCertificate ev) =
     (e_groupId ev, e_memberId ev, CERTIFICATE, Some (take 10 (e_timestamp ev)))"
| "statement_key (InsertEvent r) = row_delete_key r"

text \<open>The row that a pending statement ends in: the row its \<^verbatim>\<open>INSERT\<close> adds.\<close>

fun target :: "statement \<Rightarrow> event_row" where
  "target (DeleteMember ev) = row_of ev"
| "target (DeleteCertificate ev) = row_of (ev\<lparr>e_type := CERTIFICATE\<rparr>)"
| "target (InsertEvent r) = r"




text \<open>
  A history keeps the pairs apart when no event is handled while a statement of an
  earlier event with the same columns is pending: the \<^verbatim>\<open>DELETE\<close> of that event, or the
  \<^verbatim>\<open>INSERT\<close> that follows it.
\<close>

fun pairsApart :: "database \<Rightarrow> action list \<Rightarrow> bool" where
  "pairsApart db [] = True"
| "pairsApart db (Handle ev # acts) =
     (delete_key ev \<notin> set (map statement_key (pending db)) \<and> pairsApart (dbStep db (Handle ev)) acts)"
| "pairsApart db (Completes i # acts) = pairsApart (dbStep db (Completes i)) acts"

section \<open>Sample inputs\<close>

text \<open>Concrete values on which the theorems below are run. They abbreviate terms; none
  is part of the model.\<close>

abbreviation sampleConfig :: config where
  "sampleConfig \<equiv> \<lparr> MESSAGE_LIMIT = 15, DETECT_JOINS_LEAVES = True \<rparr>"

abbreviation emptyWorld :: world where
  "emptyWorld \<equiv> \<lparr> groupInfoStore = [], db_messages = [], db_events = [], sent = [] \<rparr>"

abbreviation sampleChat :: "string list \<Rightarrow> chat" where
  "sampleChat members \<equiv> \<lparr> ch_id = ''g1'', ch_name = ''Cairo Team'', ch_isGroup = True,
      ch_participants = Some members \<rparr>"

abbreviation sampleAnswers :: "string list \<Rightarrow> wa_message list option \<Rightarrow> observation" where
  "sampleAnswers members messages \<equiv> \<lparr> getChats = Some [sampleChat members],
      fetchMessages = messages, getContactById = Map.empty,
      now = (\<lambda>memberId. ''2024-05-02T09:00:00.000Z'') \<rparr>"

abbreviation textMessage :: "string \<Rightarrow> string \<Rightarrow> wa_message" where
  "textMessage i body \<equiv> \<lparr> wm_id = i, wm_timestamp = Some ''2024-05-01T10:00:00.000Z'',
      wm_type = ''chat'', wm_subtype = [], wm_body = body, wm_author = ''2010@c.us'',
      wm_hasMedia = False, wm_recipientIds = [], wm_contact = None \<rparr>"

abbreviation addNotification :: "string \<Rightarrow> string \<Rightarrow> wa_message" where
  "addNotification i memberId \<equiv> \<lparr> wm_id = i, wm_timestamp = Some ''2024-05-01T10:00:00.000Z'',
      wm_type = ''notification'', wm_subtype = ''add'', wm_body = [], wm_author = [],
      wm_hasMedia = False, wm_recipientIds = [memberId], wm_contact = None \<rparr>"

abbreviation sampleGroup :: "string list \<Rightarrow> string list \<Rightarrow> bool \<Rightarrow> group_info" where
  "sampleGroup ids members first \<equiv> \<lparr> gi_name = ''Cairo Team'', gi_id = ''g1'',
      previousMessageIds = ids, previousMembers = members, isFirstRun = first \<rparr>"

abbreviation sampleWorld :: world where
  "sampleWorld \<equiv> \<lparr> groupInfoStore =
        [(''g1'', \<lparr> gd_id = ''g1'', gd_name = ''Cairo Team'', memberCount = 3 \<rparr>)],
      db_messages = [], db_events = [], sent = [] \<rparr>"


abbreviation sampleEvent :: "event_type \<Rightarrow> string \<Rightarrow> string \<Rightarrow> event" where
  "sampleEvent ty memberId ts \<equiv> \<lparr> e_timestamp = ts, e_type = ty, e_memberName = ''Ann'',
      e_memberId = memberId, e_groupId = ''g1'', e_groupName = ''Cairo Team'' \<rparr>"


abbreviation sampleRow :: "string \<Rightarrow> string \<Rightarrow> string \<Rightarrow> message_row" where
  "sampleRow i body ts \<equiv> \<lparr> m_id = i, m_group_id = ''g1'', m_group_name = ''Cairo Team'',
      m_sender = ''Ann (2010)'', m_sender_id = ''2010@c.us'', m_message = body,
      m_timestamp = ts \<rparr>"

text \<open>The \<open>n\<close>-th message of a sample chat, with the id \<open>n\<close> in three digits.\<close>

definition sampleId :: "nat \<Rightarrow> string" where
  "sampleId n = [char_of (48 + n div 100), char_of (48 + n div 10 mod 10), char_of (48 + n mod 10)]"

definition sampleMessage :: "nat \<Rightarrow> wa_message" where
  "sampleMessage n = textMessage (sampleId n) ''hello''"

text \<open>A second group, and the answers of a tick in which the client fails for the first
  group and answers for the second.\<close>

abbreviation otherGroup :: group_info where
  "otherGroup \<equiv> \<lparr> gi_name = ''Giza Team'', gi_id = ''g2'', previousMessageIds = [''m8''],
      previousMembers = [''E''], isFirstRun = False \<rparr>"

abbreviation otherAnswers :: observation where
  "otherAnswers \<equiv> \<lparr> getChats = Some [\<lparr> ch_id = ''g2'', ch_name = ''Giza Team'', ch_isGroup = True,
        ch_participants = Some [''E''] \<rparr>],
      fetchMessages = Some [textMessage ''m8'' ''old'', textMessage ''m9'' ''news''],
      getContactById = Map.empty, now = (\<lambda>memberId. ''2024-05-02T09:00:00.000Z'') \<rparr>"

abbreviation noChats :: observation where
  "noChats \<equiv> \<lparr> getChats = None, fetchMessages = None, getContactById = Map.empty,
      now = (\<lambda>memberId. ''2024-05-02T09:00:00.000Z'') \<rparr>"

abbreviation tickAnswers :: "observation \<Rightarrow> string \<Rightarrow> observation" where
  "tickAnswers first groupId \<equiv> (if groupId = ''g1'' then first else otherAnswers)"

section \<open>The statement pair of one event\<close>

lemma runPair_DeleteMember:
  "runPair (DeleteMember ev) tbl =
     filter (\<lambda>r. \<not> (ev_group_id r = e_groupId ev \<and> ev_member_id r = e_memberId ev
                      \<and> ev_type r = e_type ev)) tbl @ [row_of ev]"
  by (simp add: runPair_def db_run_def db_complete_def)

lemma runPair_DeleteCertificate:
  "runPair (DeleteCertificate ev) tbl =
     filter (\<lambda>r. \<not> (ev_group_id r = e_groupId ev \<and> ev_member_id r = e_memberId ev
                      \<and> ev_type r = CERTIFICATE \<and> ev_date r = take 10 (e_timestamp ev))) tbl
     @ [row_of (ev\<lparr>e_type := CERTIFICATE\<rparr>)]"
  by (simp add: runPair_def db_run_def db_complete_def)

lemmas saveMemberEvent_eq = saveMemberEvent_def [unfolded runPair_DeleteMember]

lemmas saveCertificate_eq = saveCertificate_def [unfolded runPair_DeleteCertificate]

section \<open>What a pass leaves alone\<close>

lemma broadcast_frame [simp]:
  "groupInfoStore (broadcast e w) = groupInfoStore w"
  "db_messages (broadcast e w) = db_messages w"
  "db_events (broadcast e w) = db_events w"
  "sent (broadcast e w) = sent w @ [e]"
  by (simp_all add: broadcast_def)

lemma emitMemberEvent_frame [simp]:
  "groupInfoStore (emitMemberEvent ev w) = groupInfoStore w"
  "db_messages (emitMemberEvent ev w) = db_messages w"
  "db_events (emitMemberEvent ev w) = saveMemberEvent ev (db_events w)"
  "sent (emitMemberEvent ev w) = sent w @ [EventEnv ev]"
  by (simp_all add: emitMemberEvent_def)

lemma emitCertificate_frame [simp]:
  "groupInfoStore (emitCertificate ev w) = groupInfoStore w"
  "db_messages (emitCertificate ev w) = db_messages w"
  "db_events (emitCertificate ev w) = saveCertificate ev (db_events w)"
  "sent (emitCertificate ev w) = sent w @ [EventEnv ev]"
  by (simp_all add: emitCertificate_def)

lemma processMessage_frame:
  "groupInfoStore (snd (processMessage lookup msg gn gid w)) = groupInfoStore w"
  "db_messages (snd (processMessage lookup msg gn gid w)) = db_messages w"
  by (simp_all add: processMessage_def Let_def split: option.splits list.splits)

lemma processMessage_fst:
  "fst (processMessage lookup msg gn gid w) = fst (processMessage lookup msg gn gid w')"
  by (simp add: processMessage_def Let_def split: option.splits list.splits)

lemma processMessage_id:
  "fst (processMessage lookup msg gn gid w) = Some p \<Longrightarrow> p_id p = wm_id msg"
  by (auto simp: processMessage_def Let_def split: option.splits list.splits if_splits)

lemma processAll_frame:
  "groupInfoStore (snd (processAll lookup msgs gn gid w)) = groupInfoStore w"
  "db_messages (snd (processAll lookup msgs gn gid w)) = db_messages w"
  by (induction msgs arbitrary: w) (simp_all add: case_prod_beta processMessage_frame)

lemma broadcastNew_frame:
  "groupInfoStore (broadcastNew lookup msgs gn gid w) = groupInfoStore w"
  "db_messages (broadcastNew lookup msgs gn gid w) = db_messages w"
  by (induction msgs arbitrary: w)
     (simp_all add: case_prod_beta processMessage_frame split: option.splits)

lemma detectJoins_frame:
  "groupInfoStore (detectJoins obs gid gi cur w) = groupInfoStore w"
  "db_messages (detectJoins obs gid gi cur w) = db_messages w"
  unfolding detectJoins_def
  by (induction cur arbitrary: w) simp_all

lemma detectLeaves_frame:
  "groupInfoStore (detectLeaves obs gid gi cur w) = groupInfoStore w"
  "db_messages (detectLeaves obs gid gi cur w) = db_messages w"
proof -
  have a: "\<And>xs. groupInfoStore (foldl (\<lambda>w' memberId.
        if memberId \<notin> set cur \<and> \<not> isFirstRun gi
        then emitMemberEvent
               (createEvent (getContactById obs) (now obs memberId) memberId LEAVE (gi_name gi) gid) w'
        else w') w xs) = groupInfoStore w"
    subgoal for xs by (induction xs arbitrary: w) simp_all
    done
  have b: "\<And>xs. db_messages (foldl (\<lambda>w' memberId.
        if memberId \<notin> set cur \<and> \<not> isFirstRun gi
        then emitMemberEvent
               (createEvent (getContactById obs) (now obs memberId) memberId LEAVE (gi_name gi) gid) w'
        else w') w xs) = db_messages w"
    subgoal for xs by (induction xs arbitrary: w) simp_all
    done
  show "groupInfoStore (detectLeaves obs gid gi cur w) = groupInfoStore w"
    "db_messages (detectLeaves obs gid gi cur w) = db_messages w"
    by (simp_all add: detectLeaves_def a b)
qed

lemma memberChanges_db_messages:
  "db_messages (snd (memberChanges cfg obs gid g gi w)) = db_messages w"
  by (simp add: memberChanges_def Let_def detectJoins_frame detectLeaves_frame split: option.splits)

lemma memberChanges_info:
  "previousMessageIds (fst (memberChanges cfg obs gid g gi w)) = previousMessageIds gi"
  "isFirstRun (fst (memberChanges cfg obs gid g gi w)) = isFirstRun gi"
  "gi_name (fst (memberChanges cfg obs gid g gi w)) = gi_name gi"
  by (simp_all add: memberChanges_def Let_def split: option.splits)

section \<open>The messages table through the passes\<close>











section \<open>What a pass broadcasts\<close>

lemma sentEvents_append [simp]: "sentEvents (xs @ ys) = sentEvents xs @ sentEvents ys"
  by (induction xs rule: sentEvents.induct) simp_all

lemma joinLeaveEvents_append [simp]:
  "joinLeaveEvents (xs @ ys) = joinLeaveEvents xs @ joinLeaveEvents ys"
  by (simp add: joinLeaveEvents_def)

lemma sentEvents_map_EventEnv [simp]: "sentEvents (map EventEnv evs) = evs"
  by (induction evs) simp_all

lemma sentSince_append: "prefix (sent w) (sent w') \<Longrightarrow> sent w' = sent w @ sentSince w w'"
  by (auto simp: prefix_def sentSince_def)

lemma processMessage_sent_prefix:
  "prefix (sent w) (sent (snd (processMessage lookup msg gn gid w)))"
  by (simp add: processMessage_def Let_def split: option.splits list.splits)

lemma processAll_sent_prefix:
  "prefix (sent w) (sent (snd (processAll lookup msgs gn gid w)))"
proof (induction msgs arbitrary: w)
  case Nil
  then show ?case by simp
next
  case (Cons m ms)
  have "prefix (sent w) (sent (snd (processMessage lookup m gn gid w)))"
    by (rule processMessage_sent_prefix)
  also have "prefix \<dots> (sent (snd (processAll lookup ms gn gid (snd (processMessage lookup m gn gid w)))))"
    by (rule Cons.IH)
  finally show ?case by (simp add: case_prod_beta)
qed

lemma broadcastNew_sent_prefix:
  "prefix (sent w) (sent (broadcastNew lookup msgs gn gid w))"
proof (induction msgs arbitrary: w)
  case Nil
  then show ?case by simp
next
  case (Cons m ms)
  let ?w1 = "snd (processMessage lookup m gn gid w)"
  have a: "prefix (sent w) (sent ?w1)"
    by (rule processMessage_sent_prefix)
  show ?case
  proof (cases "fst (processMessage lookup m gn gid w)")
    case None
    have "prefix (sent ?w1) (sent (broadcastNew lookup ms gn gid ?w1))"
      by (rule Cons.IH)
    with a have "prefix (sent w) (sent (broadcastNew lookup ms gn gid ?w1))"
      by (rule prefix_order.trans)
    then show ?thesis using None by (simp add: case_prod_beta)
  next
    case (Some p)
    have "prefix (sent w) (sent (broadcast (MessageEnv p) ?w1))"
      using a by (auto simp: prefix_def)
    also have "prefix \<dots> (sent (broadcastNew lookup ms gn gid (broadcast (MessageEnv p) ?w1)))"
      by (rule Cons.IH)
    finally show ?thesis using Some by (simp add: case_prod_beta)
  qed
qed

text \<open>A loop that emits the event \<open>f m\<close> for every element \<open>m\<close> that passes the test.\<close>

lemma emit_loop_sent:
  "sent (foldl (\<lambda>w' m. if Q m then emitMemberEvent (f m) w' else w') w xs)
     = sent w @ map (\<lambda>m. EventEnv (f m)) (filter Q xs)"
  by (induction xs arbitrary: w) simp_all

lemma detectJoins_sent:
  "sent (detectJoins obs gid gi cur w)
     = sent w @ map (\<lambda>m. EventEnv (createEvent (getContactById obs) (now obs m) m JOIN (gi_name gi) gid))
                 (filter (\<lambda>m. m \<notin> set (previousMembers gi) \<and> \<not> isFirstRun gi) cur)"
  unfolding detectJoins_def by (rule emit_loop_sent)

lemma detectLeaves_sent:
  "sent (detectLeaves obs gid gi cur w)
     = sent w @ map (\<lambda>m. EventEnv (createEvent (getContactById obs) (now obs m) m LEAVE (gi_name gi) gid))
                 (filter (\<lambda>m. m \<notin> set cur \<and> \<not> isFirstRun gi) (previousMembers gi))"
  unfolding detectLeaves_def by (rule emit_loop_sent)

lemma idle_loop: "foldl (\<lambda>w' m. w') w xs = w"
  by (induction xs) simp_all

lemma detect_first_run:
  "isFirstRun gi \<Longrightarrow> detectJoins obs gid gi cur w = w"
  "isFirstRun gi \<Longrightarrow> detectLeaves obs gid gi cur w = w"
  unfolding detectJoins_def detectLeaves_def by (simp_all add: idle_loop)

section \<open>The loop that detects new messages\<close>

lemma distinct_map_head: "distinct (map f (a # xs)) \<Longrightarrow> x \<in> set xs \<Longrightarrow> f x \<noteq> f a"
  by (auto simp: image_iff)

lemma distinct_map_last: "distinct (map f (xs @ [a])) \<Longrightarrow> x \<in> set xs \<Longrightarrow> f x \<noteq> f a"
  by (auto simp: image_iff)

lemma detectNew_ids: "snd (detectNew msgs ids) = ids @ map wm_id (fst (detectNew msgs ids))"
  by (induction msgs arbitrary: ids) (simp_all add: case_prod_beta)

lemma detectNew_new_ids:
  "set (map wm_id (fst (detectNew msgs ids))) = wm_id ` set msgs - set ids"
  by (induction msgs arbitrary: ids) (auto simp: case_prod_beta)

lemma detectNew_subset: "set (fst (detectNew msgs ids)) \<subseteq> set msgs"
  by (induction msgs arbitrary: ids) (auto simp: case_prod_beta)

lemma detectNew_none: "(fst (detectNew msgs ids) = []) = (wm_id ` set msgs \<subseteq> set ids)"
proof -
  have "(fst (detectNew msgs ids) = []) = (set (map wm_id (fst (detectNew msgs ids))) = {})"
    by simp
  also have "\<dots> = (wm_id ` set msgs \<subseteq> set ids)"
    unfolding detectNew_new_ids by auto
  finally show ?thesis .
qed

lemma detectNew_distinct: "distinct ids \<Longrightarrow> distinct (snd (detectNew msgs ids))"
  by (induction msgs arbitrary: ids) (simp_all add: case_prod_beta)

lemma detectNew_snoc:
  "detectNew (pre @ [m]) ids =
     (if wm_id m \<notin> set (snd (detectNew pre ids))
      then (fst (detectNew pre ids) @ [m], snd (detectNew pre ids) @ [wm_id m])
      else detectNew pre ids)"
  by (induction pre arbitrary: ids) (simp_all add: case_prod_beta)

lemma detectNew_member:
  "distinct (map wm_id msgs) \<Longrightarrow> m \<in> set msgs \<Longrightarrow> wm_id m \<notin> set ids
   \<Longrightarrow> m \<in> set (fst (detectNew msgs ids))"
proof (induction msgs arbitrary: ids)
  case Nil
  then show ?case by simp
next
  case (Cons a msgs)
  show ?case
  proof (cases "m = a")
    case True
    then show ?thesis using Cons.prems by (simp add: case_prod_beta)
  next
    case False
    then have m: "m \<in> set msgs" using Cons.prems by simp
    then have "wm_id m \<noteq> wm_id a" using Cons.prems(1) by (rule distinct_map_head [rotated])
    then have "m \<in> set (fst (detectNew msgs (ids @ [wm_id a])))"
      and "m \<in> set (fst (detectNew msgs ids))"
      using Cons.IH m Cons.prems by simp_all
    then show ?thesis by (simp add: case_prod_beta)
  qed
qed

lemma detectNew_set_add: "snd (detectNew msgs ids) = foldl set_add ids (map wm_id msgs)"
  by (induction msgs arbitrary: ids) (simp_all add: case_prod_beta set_add_def)

section \<open>The messages a pass stores\<close>

lemma processAll_fst:
  "fst (processAll lookup msgs gn gid w)
     = List.map_filter (\<lambda>m. fst (processMessage lookup m gn gid w0)) msgs"
proof (induction msgs arbitrary: w)
  case Nil
  then show ?case by (simp add: List.map_filter_simps)
next
  case (Cons m ms)
  have "fst (processMessage lookup m gn gid w) = fst (processMessage lookup m gn gid w0)"
    by (rule processMessage_fst)
  then show ?case
    using Cons.IH by (simp add: case_prod_beta List.map_filter_simps split: option.splits)
qed

lemma map_filter_member:
  "(p \<in> set (List.map_filter f xs)) = (\<exists>x \<in> set xs. f x = Some p)"
  by (induction xs) (auto simp: List.map_filter_simps split: option.splits)

lemma processAll_ids_distinct:
  "distinct (map wm_id msgs) \<Longrightarrow> distinct (map p_id (fst (processAll lookup msgs gn gid w)))"
proof (induction msgs arbitrary: w)
  case Nil
  then show ?case by simp
next
  case (Cons m ms)
  let ?w1 = "snd (processMessage lookup m gn gid w)"
  have ih: "distinct (map p_id (fst (processAll lookup ms gn gid ?w1)))"
    using Cons by simp
  show ?case
  proof (cases "fst (processMessage lookup m gn gid w)")
    case None
    then show ?thesis using ih by (simp add: case_prod_beta)
  next
    case (Some p)
    have "p_id p = wm_id m" using Some by (rule processMessage_id)
    moreover have "\<And>q. q \<in> set (fst (processAll lookup ms gn gid ?w1)) \<Longrightarrow> p_id q \<in> wm_id ` set ms"
    proof -
      fix q assume "q \<in> set (fst (processAll lookup ms gn gid ?w1))"
      then obtain x where "x \<in> set ms" "fst (processMessage lookup x gn gid w) = Some q"
        unfolding processAll_fst [where ?w0.0 = w] map_filter_member by blast
      then show "p_id q \<in> wm_id ` set ms"
        using processMessage_id by fastforce
    qed
    ultimately have "p_id p \<notin> p_id ` set (fst (processAll lookup ms gn gid ?w1))"
      using Cons.prems by auto
    then show ?thesis using ih Some by (simp add: case_prod_beta)
  qed
qed

lemma saveMessages_snoc:
  "saveMessages (ps @ [p]) tbl = insertOrReplace (saveMessages ps tbl) (message_row_of p)"
  by (simp add: saveMessages_def)

lemma saveMessages_has_id:
  "p \<in> set ps \<Longrightarrow> \<exists>r \<in> set (saveMessages ps tbl). m_id r = p_id p"
proof (induction ps rule: rev_induct)
  case Nil
  then show ?case by simp
next
  case (snoc q qs)
  show ?case
  proof (cases "p_id q = p_id p")
    case True
    then show ?thesis
      by (auto simp: saveMessages_snoc insertOrReplace_def message_row_of_def)
  next
    case False
    then have "p \<in> set qs" using snoc.prems by auto
    then obtain r where "r \<in> set (saveMessages qs tbl)" "m_id r = p_id p"
      using snoc.IH by blast
    then show ?thesis using False
      by (auto simp: saveMessages_snoc insertOrReplace_def message_row_of_def)
  qed
qed

lemma saveMessages_has_row:
  "distinct (map p_id ps) \<Longrightarrow> p \<in> set ps \<Longrightarrow> message_row_of p \<in> set (saveMessages ps tbl)"
proof (induction ps rule: rev_induct)
  case Nil
  then show ?case by simp
next
  case (snoc q qs)
  show ?case
  proof (cases "p = q")
    case True
    then show ?thesis by (simp add: saveMessages_snoc insertOrReplace_def)
  next
    case False
    then have pq: "p \<in> set qs" using snoc.prems by auto
    then have "p_id p \<noteq> p_id q" using snoc.prems(1) by (rule distinct_map_last [rotated])
    then show ?thesis using snoc pq
      by (auto simp: saveMessages_snoc insertOrReplace_def message_row_of_def)
  qed
qed

section \<open>The pass after fetchMessages has answered\<close>

lemma messageChanges_ids:
  "previousMessageIds (fst (messageChanges obs gid msgs gi w))
     = trimIds (snd (detectNew msgs (previousMessageIds gi)))"
  by (simp add: messageChanges_def Let_def case_prod_beta)

lemma messageChanges_info:
  "previousMembers (fst (messageChanges obs gid msgs gi w)) = previousMembers gi"
  "gi_name (fst (messageChanges obs gid msgs gi w)) = gi_name gi"
  "gi_id (fst (messageChanges obs gid msgs gi w)) = gi_id gi"
  "isFirstRun (fst (messageChanges obs gid msgs gi w)) = False"
  by (simp_all add: messageChanges_def Let_def case_prod_beta)

lemma messageChanges_stored:
  "db_messages (snd (messageChanges obs gid msgs gi w))
     = (if fst (detectNew msgs (previousMessageIds gi)) \<noteq> [] \<or> isFirstRun gi
        then saveMessages (fst (processAll (getContactById obs) msgs (gi_name gi) gid w)) (db_messages w)
        else db_messages w)"
  by (simp add: messageChanges_def Let_def case_prod_beta processAll_frame broadcastNew_frame)

lemma checkMessages_completes:
  "getChats obs = Some chats \<Longrightarrow> find (\<lambda>c. ch_id c = gid) chats = Some g
   \<Longrightarrow> fetchMessages obs = Some msgs
   \<Longrightarrow> checkMessages cfg obs gid gi w
       = messageChanges obs gid msgs (fst (memberChanges cfg obs gid g gi w))
           (snd (memberChanges cfg obs gid g gi w))"
  by (simp add: checkMessages_def case_prod_beta)

lemma completesE:
  assumes "completes obs gid"
  obtains chats g where "getChats obs = Some chats" "find (\<lambda>c. ch_id c = gid) chats = Some g"
    "fetchMessages obs = Some (fetched obs)"
  using assms by (auto simp: completes_def fetched_def split: option.splits)

lemma checkMessages_stored:
  assumes "completes obs gid"
  shows "db_messages (snd (checkMessages cfg obs gid gi w))
     = (if fst (detectNew (fetched obs) (previousMessageIds gi)) \<noteq> [] \<or> isFirstRun gi
        then saveMessages (List.map_filter (\<lambda>m. fst (processMessage (getContactById obs) m (gi_name gi) gid w))
                (fetched obs)) (db_messages w)
        else db_messages w)"
proof -
  obtain chats g where c: "getChats obs = Some chats" "find (\<lambda>c. ch_id c = gid) chats = Some g"
    "fetchMessages obs = Some (fetched obs)"
    using assms by (rule completesE)
  show ?thesis
    unfolding checkMessages_completes [OF c] messageChanges_stored memberChanges_info
      memberChanges_db_messages
    by (simp add: processAll_fst [where ?w0.0 = w])
qed

section \<open>The window of recent ids\<close>

lemma trimIds_mostRecent: "trimIds ids = mostRecent 100 ids"
  by (simp add: trimIds_def mostRecent_def)

lemma mostRecent_length: "length (mostRecent n xs) = min n (length xs)"
  by (auto simp: mostRecent_def)

lemma mostRecent_short: "length xs \<le> n \<Longrightarrow> mostRecent n xs = xs"
  by (simp add: mostRecent_def)

lemma mostRecent_append: "mostRecent n (mostRecent n xs @ ys) = mostRecent n (xs @ ys)"
proof (cases "length xs \<le> n")
  case True
  then show ?thesis by (simp add: mostRecent_short)
next
  case False
  then have a: "length xs - n + n = length xs"
    and b: "length ys + (length xs - n) = length xs + length ys - n"
    by simp_all
  show ?thesis using False by (simp add: mostRecent_def a b add.commute)
qed

lemma mostRecent_distinct: "distinct xs \<Longrightarrow> distinct (mostRecent n xs)"
  by (simp add: mostRecent_def)

lemma mostRecent_set: "set (mostRecent n xs) \<subseteq> set xs"
  by (simp add: mostRecent_def set_drop_subset)

lemma checkMessages_window:
  "previousMessageIds (fst (checkMessages cfg obs gid gi w))
     = (if completes obs gid
        then trimIds (snd (detectNew (fetched obs) (previousMessageIds gi)))
        else previousMessageIds gi)"
  by (auto simp: checkMessages_def completes_def fetched_def case_prod_beta messageChanges_ids
        memberChanges_info split: option.splits)

text \<open>The window after successive fetches, without the rest of the pass.\<close>

lemma runPasses_window:
  "length (previousMessageIds gi) \<le> 100 \<Longrightarrow>
   previousMessageIds (fst (runPasses cfg obss gid gi w))
     = mostRecent 100 (previousMessageIds gi
         @ newIds (map fetched (filter (\<lambda>obs. completes obs gid) obss)) (previousMessageIds gi))"
proof (induction obss arbitrary: gi w)
  case Nil
  then show ?case by (simp add: mostRecent_short)
next
  case (Cons obs obss)
  let ?gi1 = "fst (checkMessages cfg obs gid gi w)"
  let ?w1 = "snd (checkMessages cfg obs gid gi w)"
  let ?ids = "previousMessageIds gi"
  show ?case
  proof (cases "completes obs gid")
    case False
    then have same: "previousMessageIds ?gi1 = ?ids"
      by (simp add: checkMessages_window)
    then have "previousMessageIds (fst (runPasses cfg obss gid ?gi1 ?w1))
        = mostRecent 100 (?ids @ newIds (map fetched (filter (\<lambda>obs. completes obs gid) obss)) ?ids)"
      using Cons.IH [of ?gi1 ?w1] Cons.prems by simp
    then show ?thesis using False by (simp add: case_prod_beta)
  next
    case True
    let ?new = "map wm_id (fst (detectNew (fetched obs) ?ids))"
    have win: "previousMessageIds ?gi1 = mostRecent 100 (?ids @ ?new)"
      using True by (simp add: checkMessages_window trimIds_mostRecent detectNew_ids [symmetric])
    then have len: "length (previousMessageIds ?gi1) \<le> 100"
      by (simp add: mostRecent_length)
    have "previousMessageIds (fst (runPasses cfg obss gid ?gi1 ?w1))
        = mostRecent 100 (mostRecent 100 (?ids @ ?new)
            @ newIds (map fetched (filter (\<lambda>obs. completes obs gid) obss)) (mostRecent 100 (?ids @ ?new)))"
      using Cons.IH [OF len, of ?w1] by (simp add: win)
    also have "\<dots> = mostRecent 100 (?ids @ ?new
            @ newIds (map fetched (filter (\<lambda>obs. completes obs gid) obss)) (mostRecent 100 (?ids @ ?new)))"
      by (simp add: mostRecent_append)
    finally show ?thesis
      using True by (simp add: case_prod_beta trimIds_mostRecent detectNew_ids [symmetric])
  qed
qed

lemma runPasses_window_distinct:
  "distinct (previousMessageIds gi) \<Longrightarrow> distinct (previousMessageIds (fst (runPasses cfg obss gid gi w)))"
proof (induction obss arbitrary: gi w)
  case Nil
  then show ?case by simp
next
  case (Cons obs obss)
  have "distinct (previousMessageIds (fst (checkMessages cfg obs gid gi w)))"
    using Cons.prems
    by (simp add: checkMessages_window trimIds_mostRecent mostRecent_distinct detectNew_distinct)
  then show ?case using Cons.IH by (simp add: case_prod_beta)
qed

lemma newIds_cover:
  "set (concat (map (map wm_id) fs)) \<subseteq> set ids \<union> set (newIds fs ids)"
proof (induction fs arbitrary: ids)
  case Nil
  then show ?case by simp
next
  case (Cons ms fs)
  let ?new = "map wm_id (fst (detectNew ms ids))"
  let ?ids1 = "trimIds (snd (detectNew ms ids))"
  have a: "set (map wm_id ms) \<subseteq> set ids \<union> set ?new"
    using detectNew_new_ids [of ms ids] by auto
  have "set ?ids1 \<subseteq> set ids \<union> set ?new"
    using mostRecent_set [of 100 "snd (detectNew ms ids)"]
    by (simp add: trimIds_mostRecent detectNew_ids [of ms ids])
  then have "set (concat (map (map wm_id) fs)) \<subseteq> set ids \<union> set ?new \<union> set (newIds fs ?ids1)"
    using Cons.IH [of ?ids1] by blast
  then show ?case using a by auto
qed

lemma many_ids_fill_window:
  assumes "100 < card (set (concat (map (map wm_id) fs)))"
  shows "length (mostRecent 100 (newIds fs [])) = 100"
proof -
  have "set (concat (map (map wm_id) fs)) \<subseteq> set (newIds fs [])"
    using newIds_cover [of fs "[]"] by simp
  then have "card (set (concat (map (map wm_id) fs))) \<le> card (set (newIds fs []))"
    by (simp add: card_mono)
  also have "\<dots> \<le> length (newIds fs [])"
    by (rule card_length)
  finally show ?thesis using assms by (simp add: mostRecent_length)
qed

section \<open>Sets in insertion order\<close>

lemma set_add_fold_set: "set (foldl set_add acc xs) = set acc \<union> set xs"
  by (induction xs arbitrary: acc) (auto simp: set_add_def)

lemma set_add_fold_distinct: "distinct acc \<Longrightarrow> distinct (foldl set_add acc xs)"
  by (induction xs arbitrary: acc) (simp_all add: set_add_def)

lemma new_Set_set [simp]: "set (new_Set xs) = set xs"
  by (simp add: new_Set_def set_add_fold_set)

lemma new_Set_distinct [simp]: "distinct (new_Set xs)"
  by (simp add: new_Set_def set_add_fold_distinct)

lemma new_Set_length: "length (new_Set xs) = card (set xs)"
  using distinct_card [of "new_Set xs"] by simp

section \<open>The member block of a pass\<close>

lemma memberChanges_sent:
  "sent (snd (memberChanges cfg obs gid g gi w))
     = sent w @
       (case ch_participants g of
          None \<Rightarrow> []
        | Some ps \<Rightarrow>
            if DETECT_JOINS_LEAVES cfg then
              map (\<lambda>m. EventEnv (createEvent (getContactById obs) (now obs m) m JOIN (gi_name gi) gid))
                (filter (\<lambda>m. m \<notin> set (previousMembers gi) \<and> \<not> isFirstRun gi) (new_Set ps))
              @ map (\<lambda>m. EventEnv (createEvent (getContactById obs) (now obs m) m LEAVE (gi_name gi) gid))
                  (filter (\<lambda>m. m \<notin> set ps \<and> \<not> isFirstRun gi) (previousMembers gi))
            else [])"
  by (simp add: memberChanges_def Let_def detectJoins_sent detectLeaves_sent split: option.splits)

lemma memberChanges_sent_prefix:
  "prefix (sent w) (sent (snd (memberChanges cfg obs gid g gi w)))"
  unfolding memberChanges_sent by simp

lemma memberChanges_members:
  "previousMembers (fst (memberChanges cfg obs gid g gi w))
     = (if DETECT_JOINS_LEAVES cfg
        then (case ch_participants g of Some ps \<Rightarrow> new_Set ps | None \<Rightarrow> previousMembers gi)
        else previousMembers gi)"
  by (simp add: memberChanges_def Let_def split: option.splits)

lemma memberChanges_first_run:
  "isFirstRun gi \<Longrightarrow>
   sent (snd (memberChanges cfg obs gid g gi w)) = sent w
   \<and> db_events (snd (memberChanges cfg obs gid g gi w)) = db_events w"
  by (simp add: memberChanges_def Let_def detect_first_run split: option.splits)

section \<open>What the message block of a pass broadcasts\<close>

lemma broadcastNew_member:
  "m \<in> set msgs \<Longrightarrow> fst (processMessage lookup m gn gid w0) = Some p
   \<Longrightarrow> MessageEnv p \<in> set (sent (broadcastNew lookup msgs gn gid w))"
proof (induction msgs arbitrary: w)
  case Nil
  then show ?case by simp
next
  case (Cons a msgs)
  let ?w1 = "snd (processMessage lookup a gn gid w)"
  show ?case
  proof (cases "m = a")
    case True
    then have p: "fst (processMessage lookup a gn gid w) = Some p"
      using Cons.prems(2) processMessage_fst [of lookup a gn gid w w0] by simp
    have "MessageEnv p \<in> set (sent (broadcast (MessageEnv p) ?w1))"
      by simp
    moreover have "prefix (sent (broadcast (MessageEnv p) ?w1))
        (sent (broadcastNew lookup msgs gn gid (broadcast (MessageEnv p) ?w1)))"
      by (rule broadcastNew_sent_prefix)
    ultimately have "MessageEnv p \<in> set (sent (broadcastNew lookup msgs gn gid (broadcast (MessageEnv p) ?w1)))"
      using set_mono_prefix by blast
    then show ?thesis using p by (simp add: case_prod_beta)
  next
    case False
    then have "m \<in> set msgs" using Cons.prems by simp
    then have "\<And>w'. MessageEnv p \<in> set (sent (broadcastNew lookup msgs gn gid w'))"
      using Cons.IH Cons.prems(2) by blast
    then show ?thesis by (simp add: case_prod_beta split: option.splits)
  qed
qed

lemma messageChanges_sent_prefix:
  "prefix (sent w) (sent (snd (messageChanges obs gid msgs gi w)))"
proof -
  let ?pa = "processAll (getContactById obs) msgs (gi_name gi) gid w"
  let ?wb = "(snd ?pa)\<lparr>db_messages := saveMessages (fst ?pa) (db_messages (snd ?pa))\<rparr>"
  have a: "prefix (sent w) (sent ?wb)"
    using processAll_sent_prefix [of w "getContactById obs" msgs "gi_name gi" gid] by simp
  have b: "prefix (sent ?wb) (sent (broadcastNew (getContactById obs)
      (fst (detectNew msgs (previousMessageIds gi))) (gi_name gi) gid ?wb))"
    by (rule broadcastNew_sent_prefix)
  from a b have c: "prefix (sent w) (sent (broadcastNew (getContactById obs)
      (fst (detectNew msgs (previousMessageIds gi))) (gi_name gi) gid ?wb))"
    by (rule prefix_order.trans)
  show ?thesis
    using a c by (simp add: messageChanges_def Let_def case_prod_beta)
qed

lemma messageChanges_broadcasts:
  assumes "\<not> isFirstRun gi" and "m \<in> set (fst (detectNew msgs (previousMessageIds gi)))"
    and "fst (processMessage (getContactById obs) m (gi_name gi) gid w0) = Some p"
  shows "MessageEnv p \<in> set (sent (snd (messageChanges obs gid msgs gi w)))"
proof -
  let ?pa = "processAll (getContactById obs) msgs (gi_name gi) gid w"
  let ?wb = "(snd ?pa)\<lparr>db_messages := saveMessages (fst ?pa) (db_messages (snd ?pa))\<rparr>"
  have new: "fst (detectNew msgs (previousMessageIds gi)) \<noteq> []"
    using assms(2) by auto
  have "MessageEnv p \<in> set (sent (broadcastNew (getContactById obs)
      (fst (detectNew msgs (previousMessageIds gi))) (gi_name gi) gid ?wb))"
    using assms(2,3) by (rule broadcastNew_member)
  then show ?thesis
    using assms(1) new by (simp add: messageChanges_def Let_def case_prod_beta)
qed

lemma checkMessages_sent_prefix:
  "prefix (sent w) (sent (snd (checkMessages cfg obs gid gi w)))"
proof -
  have "\<And>g msgs. prefix (sent w) (sent (snd (messageChanges obs gid msgs
      (fst (memberChanges cfg obs gid g gi w)) (snd (memberChanges cfg obs gid g gi w)))))"
    using memberChanges_sent_prefix messageChanges_sent_prefix prefix_order.trans by blast
  then show ?thesis
    by (simp add: checkMessages_def case_prod_beta memberChanges_sent_prefix split: option.splits)
qed

lemma checkGroups_sent_prefix:
  "prefix (sent w) (sent (snd (checkGroups cfg obs gs w)))"
proof (induction gs arbitrary: w)
  case Nil
  then show ?case by simp
next
  case (Cons a gs)
  obtain gid gi where a: "a = (gid, gi)" by (cases a)
  have "prefix (sent w) (sent (snd (checkMessages cfg (obs gid) gid gi w)))"
    by (rule checkMessages_sent_prefix)
  also have "prefix \<dots> (sent (snd (checkGroups cfg obs gs (snd (checkMessages cfg (obs gid) gid gi w)))))"
    by (rule Cons.IH)
  finally show ?case by (simp add: a case_prod_beta)
qed

text \<open>Every group of the registry gets its pass in the tick, on the world the passes
  before it have left, and what the pass broadcasts stays broadcast.\<close>

lemma checkGroups_pass:
  "(gid, gi) \<in> set gs \<Longrightarrow>
   \<exists>w1. prefix (sent (snd (checkMessages cfg (obs gid) gid gi w1))) (sent (snd (checkGroups cfg obs gs w)))
       \<and> (gid, fst (checkMessages cfg (obs gid) gid gi w1)) \<in> set (fst (checkGroups cfg obs gs w))"
proof (induction gs arbitrary: w)
  case Nil
  then show ?case by simp
next
  case (Cons a gs)
  obtain k gk where a: "a = (k, gk)" by (cases a)
  let ?w1 = "snd (checkMessages cfg (obs k) k gk w)"
  show ?case
  proof (cases "(gid, gi) = (k, gk)")
    case True
    have "prefix (sent ?w1) (sent (snd (checkGroups cfg obs gs ?w1)))"
      by (rule checkGroups_sent_prefix)
    then show ?thesis using True a
      by (intro exI [of _ w]) (simp add: case_prod_beta)
  next
    case False
    then have "(gid, gi) \<in> set gs" using Cons.prems a by auto
    then obtain w1 where
      "prefix (sent (snd (checkMessages cfg (obs gid) gid gi w1))) (sent (snd (checkGroups cfg obs gs ?w1)))"
      "(gid, fst (checkMessages cfg (obs gid) gid gi w1)) \<in> set (fst (checkGroups cfg obs gs ?w1))"
      using Cons.IH by blast
    then show ?thesis using a
      by (intro exI [of _ w1]) (simp add: case_prod_beta)
  qed
qed

section \<open>A pass that fails, and the other passes of the tick\<close>

lemma checkMessages_broadcasts_new:
  assumes "completes obs gid" and "\<not> isFirstRun gi" and "distinct (map wm_id (fetched obs))"
    and "m \<in> set (fetched obs)" and "wm_id m \<notin> set (previousMessageIds gi)"
    and "fst (processMessage (getContactById obs) m (gi_name gi) gid w0) = Some p"
  shows "MessageEnv p \<in> set (sent (snd (checkMessages cfg obs gid gi w)))"
proof -
  obtain chats g where c: "getChats obs = Some chats" "find (\<lambda>c. ch_id c = gid) chats = Some g"
    "fetchMessages obs = Some (fetched obs)"
    using assms(1) by (rule completesE)
  let ?gi1 = "fst (memberChanges cfg obs gid g gi w)"
  have new: "m \<in> set (fst (detectNew (fetched obs) (previousMessageIds ?gi1)))"
    using assms(3,4,5) by (simp add: memberChanges_info detectNew_member)
  have "MessageEnv p \<in> set (sent (snd (messageChanges obs gid (fetched obs) ?gi1
      (snd (memberChanges cfg obs gid g gi w)))))"
    using assms(2) new assms(6)
    by (intro messageChanges_broadcasts [where ?w0.0 = w0]) (simp_all add: memberChanges_info)
  then show ?thesis by (simp add: checkMessages_completes [OF c])
qed

section \<open>Passes that fetch no notification\<close>

lemma joinLeaveRows_saveCertificate:
  "joinLeaveRows (saveCertificate ev tbl) = joinLeaveRows tbl"
proof -
  have "filter (\<lambda>r. ev_type r \<noteq> CERTIFICATE)
          (filter (\<lambda>r. \<not> (ev_group_id r = e_groupId ev \<and> ev_member_id r = e_memberId ev
                      \<and> ev_type r = CERTIFICATE \<and> ev_date r = take 10 (e_timestamp ev))) tbl)
        = filter (\<lambda>r. ev_type r \<noteq> CERTIFICATE) tbl"
    by (induction tbl) auto
  then show ?thesis
    by (simp add: joinLeaveRows_def saveCertificate_eq row_of_def)
qed

lemma processMessage_quiet:
  assumes "\<not> is_notification (wm_type msg)"
  shows "joinLeaveEvents (sent (snd (processMessage lookup msg gn gid w))) = joinLeaveEvents (sent w)"
    and "joinLeaveRows (db_events (snd (processMessage lookup msg gn gid w))) = joinLeaveRows (db_events w)"
  using assms
  by (simp_all add: processMessage_def Let_def joinLeaveEvents_def joinLeaveRows_saveCertificate
        split: option.splits)

lemma processAll_quiet:
  assumes "list_all (\<lambda>msg. \<not> is_notification (wm_type msg)) msgs"
  shows "joinLeaveEvents (sent (snd (processAll lookup msgs gn gid w))) = joinLeaveEvents (sent w)
       \<and> joinLeaveRows (db_events (snd (processAll lookup msgs gn gid w))) = joinLeaveRows (db_events w)"
  using assms
  by (induction msgs arbitrary: w) (simp_all add: case_prod_beta processMessage_quiet)

lemma broadcastNew_quiet:
  assumes "list_all (\<lambda>msg. \<not> is_notification (wm_type msg)) msgs"
  shows "joinLeaveEvents (sent (broadcastNew lookup msgs gn gid w)) = joinLeaveEvents (sent w)
       \<and> joinLeaveRows (db_events (broadcastNew lookup msgs gn gid w)) = joinLeaveRows (db_events w)"
  using assms
proof (induction msgs arbitrary: w)
  case Nil
  then show ?case by simp
next
  case (Cons a msgs)
  let ?w1 = "snd (processMessage lookup a gn gid w)"
  have q: "joinLeaveEvents (sent ?w1) = joinLeaveEvents (sent w)"
      "joinLeaveRows (db_events ?w1) = joinLeaveRows (db_events w)"
    using Cons.prems by (simp_all add: processMessage_quiet)
  have rest: "list_all (\<lambda>msg. \<not> is_notification (wm_type msg)) msgs"
    using Cons.prems by simp
  show ?case
  proof (cases "fst (processMessage lookup a gn gid w)")
    case None
    then show ?thesis using Cons.IH [OF rest, of ?w1] q by (simp add: case_prod_beta)
  next
    case (Some p)
    have "joinLeaveEvents (sent (broadcast (MessageEnv p) ?w1)) = joinLeaveEvents (sent w)"
      using q by (simp add: joinLeaveEvents_def)
    then show ?thesis
      using Cons.IH [OF rest, of "broadcast (MessageEnv p) ?w1"] q Some by (simp add: case_prod_beta)
  qed
qed

lemma list_all_subset: "list_all P xs \<Longrightarrow> set ys \<subseteq> set xs \<Longrightarrow> list_all P ys"
  by (auto simp: list_all_iff)

lemma messageChanges_quiet:
  assumes "list_all (\<lambda>msg. \<not> is_notification (wm_type msg)) msgs"
  shows "joinLeaveEvents (sent (snd (messageChanges obs gid msgs gi w))) = joinLeaveEvents (sent w)
       \<and> joinLeaveRows (db_events (snd (messageChanges obs gid msgs gi w))) = joinLeaveRows (db_events w)"
proof -
  let ?pa = "processAll (getContactById obs) msgs (gi_name gi) gid w"
  let ?wb = "(snd ?pa)\<lparr>db_messages := saveMessages (fst ?pa) (db_messages (snd ?pa))\<rparr>"
  let ?new = "fst (detectNew msgs (previousMessageIds gi))"
  have a: "joinLeaveEvents (sent ?wb) = joinLeaveEvents (sent w)
      \<and> joinLeaveRows (db_events ?wb) = joinLeaveRows (db_events w)"
    using processAll_quiet [OF assms, of "getContactById obs" "gi_name gi" gid w] by simp
  have "list_all (\<lambda>msg. \<not> is_notification (wm_type msg)) ?new"
    using assms detectNew_subset by (rule list_all_subset)
  then have b: "joinLeaveEvents (sent (broadcastNew (getContactById obs) ?new (gi_name gi) gid ?wb))
        = joinLeaveEvents (sent w)
      \<and> joinLeaveRows (db_events (broadcastNew (getContactById obs) ?new (gi_name gi) gid ?wb))
        = joinLeaveRows (db_events w)"
    using broadcastNew_quiet [of ?new "getContactById obs" "gi_name gi" gid ?wb] a by simp
  show ?thesis
    using a b by (simp add: messageChanges_def Let_def case_prod_beta)
qed

lemma messageChanges_groupInfoStore:
  "groupInfoStore (snd (messageChanges obs gid msgs gi w)) = groupInfoStore w"
  by (simp add: messageChanges_def Let_def case_prod_beta processAll_frame broadcastNew_frame)

text \<open>A pass, whether or not it completes, written with the member block first.\<close>

lemma checkMessages_found:
  "getChats obs = Some chats \<Longrightarrow> find (\<lambda>c. ch_id c = gid) chats = Some g \<Longrightarrow>
   checkMessages cfg obs gid gi w =
     (case fetchMessages obs of
        None \<Rightarrow> memberChanges cfg obs gid g gi w
      | Some msgs \<Rightarrow> messageChanges obs gid msgs (fst (memberChanges cfg obs gid g gi w))
                       (snd (memberChanges cfg obs gid g gi w)))"
  by (simp add: checkMessages_def case_prod_beta split: option.splits)

lemma checkMessages_quiet:
  assumes "getChats obs = Some chats" and "find (\<lambda>c. ch_id c = gid) chats = Some g"
    and "noNotifications obs"
  shows "joinLeaveEvents (sent (snd (checkMessages cfg obs gid gi w)))
           = joinLeaveEvents (sent (snd (memberChanges cfg obs gid g gi w)))"
    and "joinLeaveRows (db_events (snd (checkMessages cfg obs gid gi w)))
           = joinLeaveRows (db_events (snd (memberChanges cfg obs gid g gi w)))"
    and "groupInfoStore (snd (checkMessages cfg obs gid gi w))
           = groupInfoStore (snd (memberChanges cfg obs gid g gi w))"
    and "previousMembers (fst (checkMessages cfg obs gid gi w))
           = previousMembers (fst (memberChanges cfg obs gid g gi w))"
proof -
  have q: "\<And>msgs. fetchMessages obs = Some msgs \<Longrightarrow>
      list_all (\<lambda>msg. \<not> is_notification (wm_type msg)) msgs"
    using assms(3) by (simp add: noNotifications_def fetched_def)
  show "joinLeaveEvents (sent (snd (checkMessages cfg obs gid gi w)))
           = joinLeaveEvents (sent (snd (memberChanges cfg obs gid g gi w)))"
    using q by (simp add: checkMessages_found [OF assms(1,2)] messageChanges_quiet split: option.splits)
  show "joinLeaveRows (db_events (snd (checkMessages cfg obs gid gi w)))
           = joinLeaveRows (db_events (snd (memberChanges cfg obs gid g gi w)))"
    using q by (simp add: checkMessages_found [OF assms(1,2)] messageChanges_quiet split: option.splits)
  show "groupInfoStore (snd (checkMessages cfg obs gid gi w))
           = groupInfoStore (snd (memberChanges cfg obs gid g gi w))"
    by (simp add: checkMessages_found [OF assms(1,2)] messageChanges_groupInfoStore split: option.splits)
  show "previousMembers (fst (checkMessages cfg obs gid gi w))
           = previousMembers (fst (memberChanges cfg obs gid g gi w))"
    by (simp add: checkMessages_found [OF assms(1,2)] messageChanges_info split: option.splits)
qed

lemma joinLeaveEvents_since:
  "joinLeaveEvents (sent (snd (checkMessages cfg obs gid gi w)))
     = joinLeaveEvents (sent w) @ joinLeaveEvents (sentSince w (snd (checkMessages cfg obs gid gi w)))"
proof -
  have "sent (snd (checkMessages cfg obs gid gi w))
      = sent w @ sentSince w (snd (checkMessages cfg obs gid gi w))"
    using checkMessages_sent_prefix by (rule sentSince_append)
  then have "joinLeaveEvents (sent (snd (checkMessages cfg obs gid gi w)))
      = joinLeaveEvents (sent w @ sentSince w (snd (checkMessages cfg obs gid gi w)))"
    by simp
  then show ?thesis by (simp only: joinLeaveEvents_append)
qed

section \<open>Counting the events about one member\<close>

lemma filter_one:
  "distinct xs \<Longrightarrow> filter (\<lambda>x. Q x \<and> x = m) xs = (if m \<in> set xs \<and> Q m then [m] else [])"
  by (induction xs) auto

lemma sentEvents_map_event [simp]: "sentEvents (map (\<lambda>x. EventEnv (f x)) xs) = map f xs"
  by (induction xs) simp_all

lemma createEvent_fields [simp]:
  "e_type (createEvent lookup clock m t gn gid) = t"
  "e_memberId (createEvent lookup clock m t gn gid) = m"
  by (simp_all add: createEvent_def)

section \<open>The events table keeps one row per key\<close>





subsection \<open>The statement of an event\<close>

lemma statement_key_storeStatement [simp]: "statement_key (storeStatement ev) = delete_key ev"
  by (cases "e_type ev") (simp_all add: storeStatement_def delete_key_def)

lemma target_storeStatement [simp]: "target (storeStatement ev) = row_of ev"
  by (cases "e_type ev") (simp_all add: storeStatement_def row_of_def)

lemma callback_storeStatement [simp]: "callback (storeStatement ev) = [InsertEvent (row_of ev)]"
  by (cases "e_type ev") (simp_all add: storeStatement_def row_of_def)


subsection \<open>One step of the database\<close>







lemma storeStatement_not_insert [simp]:
  "storeStatement ev \<noteq> InsertEvent r" "InsertEvent r \<noteq> storeStatement ev"
  by (cases "e_type ev"; simp add: storeStatement_def)+



subsection \<open>The row of the last event\<close>







subsection \<open>Histories that keep the pairs apart\<close>









subsection \<open>Events handled one after another\<close>

text \<open>\<open>processEvents\<close> is the history in which the two statements of every event complete
  before the next event is handled.\<close>

lemma history_append: "history (acts @ later) tbl = foldl dbStep (history acts tbl) later"
  by (simp add: history_def)

lemma pair_completes:
  "pending db = [] \<Longrightarrow>
   foldl dbStep db [Handle ev, Completes 0, Completes 0]
     = \<lparr> stored = storeEvent (stored db) ev, pending = [] \<rparr>"
  by (cases "e_type ev")
     (simp_all add: storeEvent_def storeStatement_def saveMemberEvent_def saveCertificate_def
        runPair_def db_run_def db_complete_def)

lemma processEvents_history:
  "history (concat (map (\<lambda>ev. [Handle ev, Completes 0, Completes 0]) evs)) tbl
     = \<lparr> stored = processEvents evs tbl, pending = [] \<rparr>"
proof (induction evs rule: rev_induct)
  case Nil
  then show ?case by (simp add: history_def processEvents_def)
next
  case (snoc ev evs)
  have "processEvents (evs @ [ev]) tbl = storeEvent (processEvents evs tbl) ev"
    by (simp add: processEvents_def)
  then show ?case
    using pair_completes [of "\<lparr> stored = processEvents evs tbl, pending = [] \<rparr>" ev]
    by (simp add: history_append snoc.IH del: foldl_Cons)
qed

lemma pairsApart_append:
  "pairsApart db (acts @ later) = (pairsApart db acts \<and> pairsApart (foldl dbStep db acts) later)"
  by (induction db acts rule: pairsApart.induct) simp_all

lemma processEvents_apart:
  "pairsApart \<lparr> stored = tbl, pending = [] \<rparr>
     (concat (map (\<lambda>ev. [Handle ev, Completes 0, Completes 0]) evs))"
proof (induction evs rule: rev_induct)
  case Nil
  then show ?case by simp
next
  case (snoc ev evs)
  have "foldl dbStep \<lparr> stored = tbl, pending = [] \<rparr>
          (concat (map (\<lambda>ev. [Handle ev, Completes 0, Completes 0]) evs))
      = \<lparr> stored = processEvents evs tbl, pending = [] \<rparr>"
    using processEvents_history [of evs tbl] by (simp add: history_def)
  then show ?case
    using snoc.IH by (simp add: pairsApart_append del: foldl_Cons)
qed

text \<open>
  The history of a pass that processes a new voice message: \<^verbatim>\<open>processMessage\<close> is called
  for it when the messages are stored and again when the new messages are broadcast, and
  for a message without an author it waits for nothing in between. Both \<^verbatim>\<open>DELETE\<close>
  statements are issued before the first completes, both callbacks issue their
  \<^verbatim>\<open>INSERT\<close>, and the table holds two rows of one key.
\<close>

lemma pairs_not_apart_two_rows:
  "\<not> pairsApart \<lparr> stored = [], pending = [] \<rparr>
        [Handle (sampleEvent CERTIFICATE ''Unknown'' ''2024-05-01T10:00:00.000Z''),
         Handle (sampleEvent CERTIFICATE ''Unknown'' ''2024-05-01T10:00:00.000Z''),
         Completes 0, Completes 0, Completes 0, Completes 0]
   \<and> map row_key (stored (history
        [Handle (sampleEvent CERTIFICATE ''Unknown'' ''2024-05-01T10:00:00.000Z''),
         Handle (sampleEvent CERTIFICATE ''Unknown'' ''2024-05-01T10:00:00.000Z''),
         Completes 0, Completes 0, Completes 0, Completes 0] []))
     = [(''g1'', ''Unknown'', CERTIFICATE, ''2024-05-01''),
        (''g1'', ''Unknown'', CERTIFICATE, ''2024-05-01'')]"
  by code_simp




section \<open>The timer starts a run at every tick\<close>







text \<open>
  Claim C3. The handler is run twice with the name \<^verbatim>\<open>cairo\<close> while the client lists one
  group, named \<^verbatim>\<open>Cairo Team\<close>. The first request adds the group. The claim has the second
  request answered with \<^verbatim>\<open>AlreadyMonitored\<close> (status 409); the handler answers it as it
  answered the first, with status 200, and starts the group's caches afresh. Its check
  compares whole names, so only a request that spells the whole name is refused.
\<close>

theorem addGroup_again_by_substring:
  "fst (addGroup sampleConfig (Some [sampleChat [''A'', ''B'']])
          (sampleAnswers [''A'', ''B''] (Some [textMessage ''m1'' ''hello''])) ''cairo''
          \<lparr> monitoredGroups = [], shared = emptyWorld, isClientReady = True, configGroups = [] \<rparr>)
     = Added200 \<lparr> gd_id = ''g1'', gd_name = ''Cairo Team'', memberCount = 2 \<rparr>
   \<and> addGroup sampleConfig (Some [sampleChat [''A'', ''B'']])
          (sampleAnswers [''A'', ''B''] (Some [])) ''cairo''
          (snd (addGroup sampleConfig (Some [sampleChat [''A'', ''B'']])
                  (sampleAnswers [''A'', ''B''] (Some [textMessage ''m1'' ''hello''])) ''cairo''
                  \<lparr> monitoredGroups = [], shared = emptyWorld, isClientReady = True,
                    configGroups = [] \<rparr>))
     = (Added200 \<lparr> gd_id = ''g1'', gd_name = ''Cairo Team'', memberCount = 2 \<rparr>,
        \<lparr> monitoredGroups = [(''g1'', sampleGroup [] [''A'', ''B''] False)],
          shared = \<lparr> groupInfoStore =
                [(''g1'', \<lparr> gd_id = ''g1'', gd_name = ''Cairo Team'', memberCount = 2 \<rparr>)],
              db_messages = [\<lparr> m_id = ''m1'', m_group_id = ''g1'', m_group_name = ''Cairo Team'',
                  m_sender = ''2010'', m_sender_id = ''2010@c.us'', m_message = ''hello'',
                  m_timestamp = ''2024-05-01T10:00:00.000Z'' \<rparr>],
              db_events = [],
              sent = [GroupAddedEnv \<lparr> gd_id = ''g1'', gd_name = ''Cairo Team'', memberCount = 2 \<rparr>,
                      GroupAddedEnv \<lparr> gd_id = ''g1'', gd_name = ''Cairo Team'', memberCount = 2 \<rparr>] \<rparr>,
          isClientReady = True, configGroups = [''Cairo Team''] \<rparr>)
   \<and> fst (addGroup sampleConfig (Some [sampleChat [''A'', ''B'']])
          (sampleAnswers [''A'', ''B''] (Some [])) ''cairo team''
          (snd (addGroup sampleConfig (Some [sampleChat [''A'', ''B'']])
                  (sampleAnswers [''A'', ''B''] (Some [textMessage ''m1'' ''hello''])) ''cairo''
                  \<lparr> monitoredGroups = [], shared = emptyWorld, isClientReady = True,
                    configGroups = [] \<rparr>)))
     = AlreadyMonitored409"
  by code_simp



text \<open>
  Claim C5, as stated, has every completed pass store all fetched messages. The first
  pass stores the message \<^verbatim>\<open>m1\<close>; the second pass fetches the same id with an edited
  body, finds no new id, and stores nothing: the table still holds the first body.
\<close>

theorem seen_ids_are_not_stored_again:
  "completes (sampleAnswers [''A''] (Some [textMessage ''m1'' ''hello, edited''])) ''g1''
   \<and> map m_message (db_messages (snd (runPasses sampleConfig
        [sampleAnswers [''A''] (Some [textMessage ''m1'' ''hello'']),
         sampleAnswers [''A''] (Some [textMessage ''m1'' ''hello, edited''])]
        ''g1'' (sampleGroup [] [''A''] True) sampleWorld))) = [''hello'']"
  by code_simp

text \<open>
  Claim C5, as amended. A pass that completes stores the fetched messages exactly when it
  is the first run of the group or at least one fetched id is not in
  \<^verbatim>\<open>previousMessageIds\<close>. It then stores every fetched message that \<^verbatim>\<open>processMessage\<close>
  converts: a row with its id is in the table afterwards, and when the fetched ids are
  distinct that row is the row of the message as fetched. Otherwise the pass leaves the
  messages table as it was.
\<close>

theorem pass_stores_when_new_or_first:
  assumes "completes obs groupId"
  shows "((isFirstRun gi \<or> \<not> wm_id ` set (fetched obs) \<subseteq> set (previousMessageIds gi)) \<longrightarrow>
           (\<forall>m \<in> set (fetched obs). \<forall>p.
              fst (processMessage (getContactById obs) m (gi_name gi) groupId w) = Some p \<longrightarrow>
                (\<exists>r \<in> set (db_messages (snd (checkMessages cfg obs groupId gi w))). m_id r = wm_id m)
                \<and> (distinct (map wm_id (fetched obs)) \<longrightarrow>
                     message_row_of p \<in> set (db_messages (snd (checkMessages cfg obs groupId gi w))))))
       \<and> (\<not> isFirstRun gi \<and> wm_id ` set (fetched obs) \<subseteq> set (previousMessageIds gi) \<longrightarrow>
            db_messages (snd (checkMessages cfg obs groupId gi w)) = db_messages w)"
proof (intro conjI impI ballI allI)
  let ?ps = "List.map_filter (\<lambda>m. fst (processMessage (getContactById obs) m (gi_name gi) groupId w))
                (fetched obs)"
  fix m p
  assume new: "isFirstRun gi \<or> \<not> wm_id ` set (fetched obs) \<subseteq> set (previousMessageIds gi)"
    and m: "m \<in> set (fetched obs)"
    and p: "fst (processMessage (getContactById obs) m (gi_name gi) groupId w) = Some p"
  have tbl: "db_messages (snd (checkMessages cfg obs groupId gi w)) = saveMessages ?ps (db_messages w)"
    using new by (auto simp: checkMessages_stored [OF assms] detectNew_none)
  have mem: "p \<in> set ?ps"
    using m p by (auto simp: map_filter_member)
  have id: "p_id p = wm_id m"
    using p by (rule processMessage_id)
  show "\<exists>r \<in> set (db_messages (snd (checkMessages cfg obs groupId gi w))). m_id r = wm_id m"
    using saveMessages_has_id [OF mem, of "db_messages w"] by (simp add: tbl id)
  {
    assume d: "distinct (map wm_id (fetched obs))"
    have "distinct (map p_id ?ps)"
      using processAll_ids_distinct [OF d, of "getContactById obs" "gi_name gi" groupId w]
      by (simp add: processAll_fst [where ?w0.0 = w])
    then show "message_row_of p \<in> set (db_messages (snd (checkMessages cfg obs groupId gi w)))"
      using mem by (simp add: tbl saveMessages_has_row)
  }
next
  assume "\<not> isFirstRun gi \<and> wm_id ` set (fetched obs) \<subseteq> set (previousMessageIds gi)"
  then show "db_messages (snd (checkMessages cfg obs groupId gi w)) = db_messages w"
    by (simp add: checkMessages_stored [OF assms] detectNew_none)
qed

theorem pass_stores_when_new_or_first_witness:
  "completes (sampleAnswers [''A''] (Some [textMessage ''m1'' ''hello''])) ''g1''
   \<and> isFirstRun (sampleGroup [] [''A''] True)
   \<and> textMessage ''m1'' ''hello'' \<in> set (fetched (sampleAnswers [''A''] (Some [textMessage ''m1'' ''hello''])))
   \<and> fst (processMessage Map.empty (textMessage ''m1'' ''hello'') ''Cairo Team'' ''g1'' sampleWorld)
       = Some \<lparr> p_id = ''m1'', p_timestamp = ''2024-05-01T10:00:00.000Z'', p_sender = ''2010'',
                 p_senderId = ''2010@c.us'', p_message = ''hello'', p_type = ''chat'',
                 p_hasMedia = False, p_groupId = ''g1'', p_groupName = ''Cairo Team'' \<rparr>
   \<and> distinct (map wm_id (fetched (sampleAnswers [''A''] (Some [textMessage ''m1'' ''hello'']))))
   \<and> message_row_of \<lparr> p_id = ''m1'', p_timestamp = ''2024-05-01T10:00:00.000Z'', p_sender = ''2010'',
                 p_senderId = ''2010@c.us'', p_message = ''hello'', p_type = ''chat'',
                 p_hasMedia = False, p_groupId = ''g1'', p_groupName = ''Cairo Team'' \<rparr>
       \<in> set (db_messages (snd (checkMessages sampleConfig
              (sampleAnswers [''A''] (Some [textMessage ''m1'' ''hello''])) ''g1''
              (sampleGroup [] [''A''] True) sampleWorld)))
   \<and> completes (sampleAnswers [''A''] (Some [textMessage ''m1'' ''hello, edited''])) ''g1''
   \<and> \<not> isFirstRun (sampleGroup [''m1''] [''A''] False)
   \<and> wm_id ` set (fetched (sampleAnswers [''A''] (Some [textMessage ''m1'' ''hello, edited''])))
       \<subseteq> set (previousMessageIds (sampleGroup [''m1''] [''A''] False))
   \<and> db_messages (snd (checkMessages sampleConfig
          (sampleAnswers [''A''] (Some [textMessage ''m1'' ''hello, edited''])) ''g1''
          (sampleGroup [''m1''] [''A''] False) sampleWorld)) = db_messages sampleWorld"
proof -
  let ?A1 = "sampleAnswers [''A''] (Some [textMessage ''m1'' ''hello''])"
  let ?A2 = "sampleAnswers [''A''] (Some [textMessage ''m1'' ''hello, edited''])"
  let ?P = "\<lparr> p_id = ''m1'', p_timestamp = ''2024-05-01T10:00:00.000Z'', p_sender = ''2010'',
                 p_senderId = ''2010@c.us'', p_message = ''hello'', p_type = ''chat'',
                 p_hasMedia = False, p_groupId = ''g1'', p_groupName = ''Cairo Team'' \<rparr>"
  have c1: "completes ?A1 ''g1''" by (simp add: completes_def)
  have c2: "completes ?A2 ''g1''" by (simp add: completes_def)
  have f1: "fetched ?A1 = [textMessage ''m1'' ''hello'']" by (simp add: fetched_def)
  have f2: "fetched ?A2 = [textMessage ''m1'' ''hello, edited'']" by (simp add: fetched_def)
  have p: "fst (processMessage Map.empty (textMessage ''m1'' ''hello'') ''Cairo Team'' ''g1'' sampleWorld)
       = Some ?P"
    by code_simp
  have a: "message_row_of ?P \<in> set (db_messages (snd (checkMessages sampleConfig ?A1 ''g1''
              (sampleGroup [] [''A''] True) sampleWorld)))"
    using pass_stores_when_new_or_first [OF c1, of "sampleGroup [] [''A''] True" sampleWorld sampleConfig]
      p f1 by simp
  have b: "db_messages (snd (checkMessages sampleConfig ?A2 ''g1''
          (sampleGroup [''m1''] [''A''] False) sampleWorld)) = db_messages sampleWorld"
    using pass_stores_when_new_or_first [OF c2, of "sampleGroup [''m1''] [''A''] False" sampleWorld sampleConfig]
      f2 by simp
  show ?thesis
    using c1 c2 p a b by (simp add: f1 f2)
qed

text \<open>
  Claim C6, as stated, has the first pass of a group emit no JOIN and no LEAVE event. The
  first pass hands every fetched message to \<^verbatim>\<open>processMessage\<close>; one of them is the
  notification that C was added: the pass stores a JOIN event for C and broadcasts it.
\<close>

theorem baseline_pass_replays_notifications:
  "isFirstRun (sampleGroup [] [''A'', ''B'', ''C''] True)
   \<and> sentEvents (sent (snd (checkMessages sampleConfig
         (sampleAnswers [''A'', ''B'', ''C''] (Some [addNotification ''n1'' ''C''])) ''g1''
         (sampleGroup [] [''A'', ''B'', ''C''] True) sampleWorld)))
       = [\<lparr> e_timestamp = ''2024-05-01T10:00:00.000Z'', e_type = JOIN, e_memberName = ''C'',
             e_memberId = ''C'', e_groupId = ''g1'', e_groupName = ''Cairo Team'' \<rparr>]
   \<and> db_events (snd (checkMessages sampleConfig
         (sampleAnswers [''A'', ''B'', ''C''] (Some [addNotification ''n1'' ''C''])) ''g1''
         (sampleGroup [] [''A'', ''B'', ''C''] True) sampleWorld))
       = [\<lparr> ev_group_id = ''g1'', ev_group_name = ''Cairo Team'', ev_member_id = ''C'',
             ev_member_name = ''C'', ev_type = JOIN, ev_timestamp = ''2024-05-01T10:00:00.000Z'',
             ev_date = ''2024-05-01'' \<rparr>]"
  by code_simp

text \<open>
  Claim C6, as amended. On the first run of a group the member block of the pass emits
  nothing, whatever the number of participants: it broadcasts no event and stores none,
  and it keeps the participants just observed as the snapshot, without comparing them
  with the snapshot before. When none of the fetched messages is a notification, the whole
  pass broadcasts no JOIN and no LEAVE event and leaves the JOIN and LEAVE rows of the
  events table as they were.
\<close>

theorem baseline_pass_member_events:
  assumes "isFirstRun gi"
  shows "sent (snd (memberChanges cfg obs groupId g gi w)) = sent w
     \<and> db_events (snd (memberChanges cfg obs groupId g gi w)) = db_events w
     \<and> (noNotifications obs \<longrightarrow>
          joinLeaveEvents (sentSince w (snd (checkMessages cfg obs groupId gi w))) = []
          \<and> joinLeaveRows (db_events (snd (checkMessages cfg obs groupId gi w)))
              = joinLeaveRows (db_events w))
     \<and> (getChats obs = Some chats \<and> find (\<lambda>c. ch_id c = groupId) chats = Some g
          \<and> DETECT_JOINS_LEAVES cfg \<and> ch_participants g = Some ps \<longrightarrow>
            previousMembers (fst (checkMessages cfg obs groupId gi w)) = new_Set ps)"
proof (intro conjI impI)
  show "sent (snd (memberChanges cfg obs groupId g gi w)) = sent w"
    and "db_events (snd (memberChanges cfg obs groupId g gi w)) = db_events w"
    using memberChanges_first_run [OF assms] by simp_all
next
  assume q: "noNotifications obs"
  have "joinLeaveEvents (sent (snd (checkMessages cfg obs groupId gi w))) = joinLeaveEvents (sent w)
      \<and> joinLeaveRows (db_events (snd (checkMessages cfg obs groupId gi w)))
          = joinLeaveRows (db_events w)"
  proof (cases "getChats obs")
    case None
    then show ?thesis by (simp add: checkMessages_def)
  next
    case (Some cs)
    show ?thesis
    proof (cases "find (\<lambda>c. ch_id c = groupId) cs")
      case None
      then show ?thesis using Some by (simp add: checkMessages_def)
    next
      case (Some g')
      show ?thesis
        using checkMessages_quiet(1,2) [OF \<open>getChats obs = Some cs\<close> Some q, of cfg gi w]
          memberChanges_first_run [OF assms, of cfg obs groupId g' w]
        by simp
    qed
  qed
  then show "joinLeaveEvents (sentSince w (snd (checkMessages cfg obs groupId gi w))) = []"
    and "joinLeaveRows (db_events (snd (checkMessages cfg obs groupId gi w)))
              = joinLeaveRows (db_events w)"
    using joinLeaveEvents_since [of cfg obs groupId gi w] by simp_all
next
  assume a: "getChats obs = Some chats \<and> find (\<lambda>c. ch_id c = groupId) chats = Some g
          \<and> DETECT_JOINS_LEAVES cfg \<and> ch_participants g = Some ps"
  then have "checkMessages cfg obs groupId gi w =
     (case fetchMessages obs of
        None \<Rightarrow> memberChanges cfg obs groupId g gi w
      | Some msgs \<Rightarrow> messageChanges obs groupId msgs (fst (memberChanges cfg obs groupId g gi w))
                       (snd (memberChanges cfg obs groupId g gi w)))"
    by (simp add: checkMessages_found)
  then show "previousMembers (fst (checkMessages cfg obs groupId gi w)) = new_Set ps"
    using a by (simp add: messageChanges_info memberChanges_members split: option.splits)
qed

theorem baseline_pass_member_events_witness:
  "isFirstRun (sampleGroup [] [''A'', ''B'', ''C''] True)
   \<and> noNotifications (sampleAnswers [''A'', ''B'', ''C'', ''D''] (Some [textMessage ''m1'' ''hello'']))
   \<and> getChats (sampleAnswers [''A'', ''B'', ''C'', ''D''] (Some [textMessage ''m1'' ''hello'']))
       = Some [sampleChat [''A'', ''B'', ''C'', ''D'']]
   \<and> find (\<lambda>c. ch_id c = ''g1'') [sampleChat [''A'', ''B'', ''C'', ''D'']]
       = Some (sampleChat [''A'', ''B'', ''C'', ''D''])
   \<and> DETECT_JOINS_LEAVES sampleConfig
   \<and> ch_participants (sampleChat [''A'', ''B'', ''C'', ''D'']) = Some [''A'', ''B'', ''C'', ''D'']
   \<and> joinLeaveEvents (sentSince sampleWorld (snd (checkMessages sampleConfig
         (sampleAnswers [''A'', ''B'', ''C'', ''D''] (Some [textMessage ''m1'' ''hello''])) ''g1''
         (sampleGroup [] [''A'', ''B'', ''C''] True) sampleWorld))) = []
   \<and> joinLeaveRows (db_events (snd (checkMessages sampleConfig
         (sampleAnswers [''A'', ''B'', ''C'', ''D''] (Some [textMessage ''m1'' ''hello''])) ''g1''
         (sampleGroup [] [''A'', ''B'', ''C''] True) sampleWorld))) = joinLeaveRows (db_events sampleWorld)
   \<and> previousMembers (fst (checkMessages sampleConfig
         (sampleAnswers [''A'', ''B'', ''C'', ''D''] (Some [textMessage ''m1'' ''hello''])) ''g1''
         (sampleGroup [] [''A'', ''B'', ''C''] True) sampleWorld)) = [''A'', ''B'', ''C'', ''D'']"
proof -
  let ?gi = "sampleGroup [] [''A'', ''B'', ''C''] True"
  let ?obs = "sampleAnswers [''A'', ''B'', ''C'', ''D''] (Some [textMessage ''m1'' ''hello''])"
  let ?g = "sampleChat [''A'', ''B'', ''C'', ''D'']"
  have f: "isFirstRun ?gi" by simp
  have q: "noNotifications ?obs"
    by (simp add: noNotifications_def fetched_def is_notification_def)
  have c: "getChats ?obs = Some [?g] \<and> find (\<lambda>c. ch_id c = ''g1'') [?g] = Some ?g
      \<and> DETECT_JOINS_LEAVES sampleConfig \<and> ch_participants ?g = Some [''A'', ''B'', ''C'', ''D'']"
    by simp
  note t = baseline_pass_member_events [OF f, of sampleConfig ?obs "''g1''" ?g sampleWorld "[?g]"
      "[''A'', ''B'', ''C'', ''D'']"]
  have 1: "joinLeaveEvents (sentSince sampleWorld (snd (checkMessages sampleConfig ?obs ''g1'' ?gi sampleWorld))) = []"
    and 2: "joinLeaveRows (db_events (snd (checkMessages sampleConfig ?obs ''g1'' ?gi sampleWorld)))
        = joinLeaveRows (db_events sampleWorld)"
    using t q by blast+
  have "previousMembers (fst (checkMessages sampleConfig ?obs ''g1'' ?gi sampleWorld))
      = new_Set [''A'', ''B'', ''C'', ''D'']"
    using t c by blast
  then have 3: "previousMembers (fst (checkMessages sampleConfig ?obs ''g1'' ?gi sampleWorld))
      = [''A'', ''B'', ''C'', ''D'']"
    by (simp add: new_Set_def set_add_def)
  show ?thesis using f q c 1 2 3 by blast
qed

text \<open>
  Claim C7, as stated, has exactly one JOIN event emitted for a member who is new. The
  snapshot is A, B and C, the participants are A, C and D, and the fetched messages hold
  the notification that D was added: the pass broadcasts the JOIN event of the member
  block and then two more for D, one each time \<^verbatim>\<open>processMessage\<close> handles the
  notification (once to store the messages, once to broadcast the new ones).
\<close>

theorem notification_repeats_the_join:
  "\<not> isFirstRun (sampleGroup [] [''A'', ''B'', ''C''] False)
   \<and> ''D'' \<in> set [''A'', ''C'', ''D''] - set (previousMembers (sampleGroup [] [''A'', ''B'', ''C''] False))
   \<and> length (memberEventsOf JOIN ''D'' (sentEvents (sentSince sampleWorld (snd (checkMessages sampleConfig
         (sampleAnswers [''A'', ''C'', ''D''] (Some [addNotification ''n1'' ''D''])) ''g1''
         (sampleGroup [] [''A'', ''B'', ''C''] False) sampleWorld))))) = 3"
  by code_simp

text \<open>
  Claim C7, as amended. The pass is not the first run of the group, join/leave detection
  is on, the client lists the group with its participants, and none of the fetched
  messages is a notification (or \<^verbatim>\<open>fetchMessages\<close> throws). Then the JOIN events the pass
  broadcasts about a member are exactly one, the event of \<^verbatim>\<open>createEvent\<close>, when the member
  is among the participants and not in the snapshot, and none otherwise; likewise the LEAVE
  events, for a member of the snapshot who is not among the participants. The member count
  of the group in \<^verbatim>\<open>groupInfoStore\<close> becomes the number of distinct participants, and they
  are the new snapshot.
\<close>

theorem member_diff_events:
  assumes "\<not> isFirstRun gi" and "DETECT_JOINS_LEAVES cfg"
    and "getChats obs = Some chats" and "find (\<lambda>c. ch_id c = groupId) chats = Some g"
    and "ch_participants g = Some ps" and "distinct (previousMembers gi)"
    and "map_of (groupInfoStore w) groupId = Some gd" and "noNotifications obs"
  shows "memberEventsOf JOIN m (sentEvents (sentSince w (snd (checkMessages cfg obs groupId gi w))))
       = (if m \<in> set ps - set (previousMembers gi)
          then [createEvent (getContactById obs) (now obs m) m JOIN (gi_name gi) groupId] else [])
     \<and> memberEventsOf LEAVE m (sentEvents (sentSince w (snd (checkMessages cfg obs groupId gi w))))
       = (if m \<in> set (previousMembers gi) - set ps
          then [createEvent (getContactById obs) (now obs m) m LEAVE (gi_name gi) groupId] else [])
     \<and> map_of (groupInfoStore (snd (checkMessages cfg obs groupId gi w))) groupId
       = Some (gd\<lparr>memberCount := card (set ps)\<rparr>)
     \<and> previousMembers (fst (checkMessages cfg obs groupId gi w)) = new_Set ps"
proof -
  let ?w' = "snd (checkMessages cfg obs groupId gi w)"
  let ?wm = "snd (memberChanges cfg obs groupId g gi w)"
  let ?join = "\<lambda>m. createEvent (getContactById obs) (now obs m) m JOIN (gi_name gi) groupId"
  let ?leave = "\<lambda>m. createEvent (getContactById obs) (now obs m) m LEAVE (gi_name gi) groupId"
  let ?joins = "map ?join (filter (\<lambda>m. m \<notin> set (previousMembers gi)) (new_Set ps))"
  let ?leaves = "map ?leave (filter (\<lambda>m. m \<notin> set ps) (previousMembers gi))"
  have "sent ?wm = sent w @ map EventEnv (?joins @ ?leaves)"
    using assms(1,2,5) by (simp add: memberChanges_sent)
  then have "joinLeaveEvents (sent ?wm) = joinLeaveEvents (sent w) @ ?joins @ ?leaves"
    by (simp add: joinLeaveEvents_def filter_map comp_def)
  then have "joinLeaveEvents (sent ?w') = joinLeaveEvents (sent w) @ ?joins @ ?leaves"
    using checkMessages_quiet(1) [OF assms(3,4,8), of cfg gi w] by simp
  then have new: "joinLeaveEvents (sentSince w ?w') = ?joins @ ?leaves"
    using joinLeaveEvents_since [of cfg obs groupId gi w] by simp
  have of_type: "\<And>t. t \<noteq> CERTIFICATE \<Longrightarrow>
      memberEventsOf t m (sentEvents (sentSince w ?w')) = memberEventsOf t m (?joins @ ?leaves)"
  proof -
    fix t :: event_type
    assume "t \<noteq> CERTIFICATE"
    then have "memberEventsOf t m (sentEvents (sentSince w ?w'))
        = memberEventsOf t m (joinLeaveEvents (sentSince w ?w'))"
      by (auto simp: memberEventsOf_def joinLeaveEvents_def intro: filter_cong)
    then show "memberEventsOf t m (sentEvents (sentSince w ?w')) = memberEventsOf t m (?joins @ ?leaves)"
      by (simp only: new)
  qed
  have j: "memberEventsOf JOIN m (?joins @ ?leaves)
      = map ?join (filter (\<lambda>x. x \<notin> set (previousMembers gi) \<and> x = m) (new_Set ps))"
    by (simp add: memberEventsOf_def filter_map comp_def)
  have l: "memberEventsOf LEAVE m (?joins @ ?leaves)
      = map ?leave (filter (\<lambda>x. x \<notin> set ps \<and> x = m) (previousMembers gi))"
    by (simp add: memberEventsOf_def filter_map comp_def)
  have 1: "memberEventsOf JOIN m (sentEvents (sentSince w ?w'))
       = (if m \<in> set ps - set (previousMembers gi) then [?join m] else [])"
    unfolding of_type [of JOIN, simplified] j
    by (simp add: filter_one)
  have 2: "memberEventsOf LEAVE m (sentEvents (sentSince w ?w'))
       = (if m \<in> set (previousMembers gi) - set ps then [?leave m] else [])"
    unfolding of_type [of LEAVE, simplified] l
    using assms(6) by (simp add: filter_one)
  have "groupInfoStore ?wm
      = AList.update groupId (gd\<lparr>memberCount := length (new_Set ps)\<rparr>) (groupInfoStore w)"
    using assms(2,5,7)
    by (simp add: memberChanges_def Let_def updateMemberCount_def detectJoins_frame detectLeaves_frame)
  then have 3: "map_of (groupInfoStore ?w') groupId = Some (gd\<lparr>memberCount := card (set ps)\<rparr>)"
    using checkMessages_quiet(3) [OF assms(3,4,8), of cfg gi w]
    by (simp add: update_conv' new_Set_length)
  have 4: "previousMembers (fst (checkMessages cfg obs groupId gi w)) = new_Set ps"
    using checkMessages_quiet(4) [OF assms(3,4,8), of cfg gi w] assms(2,5)
    by (simp add: memberChanges_members)
  show ?thesis using 1 2 3 4 by blast
qed

theorem member_diff_events_witness:
  "\<not> isFirstRun (sampleGroup [] [''A'', ''B'', ''C''] False)
   \<and> DETECT_JOINS_LEAVES sampleConfig
   \<and> getChats (sampleAnswers [''A'', ''C'', ''D''] (Some [textMessage ''m1'' ''hello'']))
       = Some [sampleChat [''A'', ''C'', ''D'']]
   \<and> find (\<lambda>c. ch_id c = ''g1'') [sampleChat [''A'', ''C'', ''D'']] = Some (sampleChat [''A'', ''C'', ''D''])
   \<and> ch_participants (sampleChat [''A'', ''C'', ''D'']) = Some [''A'', ''C'', ''D'']
   \<and> distinct (previousMembers (sampleGroup [] [''A'', ''B'', ''C''] False))
   \<and> map_of (groupInfoStore sampleWorld) ''g1''
       = Some \<lparr> gd_id = ''g1'', gd_name = ''Cairo Team'', memberCount = 3 \<rparr>
   \<and> noNotifications (sampleAnswers [''A'', ''C'', ''D''] (Some [textMessage ''m1'' ''hello'']))
   \<and> memberEventsOf JOIN ''D'' (sentEvents (sentSince sampleWorld (snd (checkMessages sampleConfig
         (sampleAnswers [''A'', ''C'', ''D''] (Some [textMessage ''m1'' ''hello''])) ''g1''
         (sampleGroup [] [''A'', ''B'', ''C''] False) sampleWorld))))
       = [\<lparr> e_timestamp = ''2024-05-02T09:00:00.000Z'', e_type = JOIN, e_memberName = ''Unknown'',
             e_memberId = ''D'', e_groupId = ''g1'', e_groupName = ''Cairo Team'' \<rparr>]
   \<and> memberEventsOf LEAVE ''B'' (sentEvents (sentSince sampleWorld (snd (checkMessages sampleConfig
         (sampleAnswers [''A'', ''C'', ''D''] (Some [textMessage ''m1'' ''hello''])) ''g1''
         (sampleGroup [] [''A'', ''B'', ''C''] False) sampleWorld))))
       = [\<lparr> e_timestamp = ''2024-05-02T09:00:00.000Z'', e_type = LEAVE, e_memberName = ''Unknown'',
             e_memberId = ''B'', e_groupId = ''g1'', e_groupName = ''Cairo Team'' \<rparr>]
   \<and> memberEventsOf JOIN ''A'' (sentEvents (sentSince sampleWorld (snd (checkMessages sampleConfig
         (sampleAnswers [''A'', ''C'', ''D''] (Some [textMessage ''m1'' ''hello''])) ''g1''
         (sampleGroup [] [''A'', ''B'', ''C''] False) sampleWorld)))) = []
   \<and> map_of (groupInfoStore (snd (checkMessages sampleConfig
         (sampleAnswers [''A'', ''C'', ''D''] (Some [textMessage ''m1'' ''hello''])) ''g1''
         (sampleGroup [] [''A'', ''B'', ''C''] False) sampleWorld))) ''g1''
       = Some \<lparr> gd_id = ''g1'', gd_name = ''Cairo Team'', memberCount = 3 \<rparr>"
proof -
  let ?gi = "sampleGroup [] [''A'', ''B'', ''C''] False"
  let ?obs = "sampleAnswers [''A'', ''C'', ''D''] (Some [textMessage ''m1'' ''hello''])"
  let ?g = "sampleChat [''A'', ''C'', ''D'']"
  let ?gd = "\<lparr> gd_id = ''g1'', gd_name = ''Cairo Team'', memberCount = 3 \<rparr>"
  have h1: "\<not> isFirstRun ?gi" by simp
  have h2: "DETECT_JOINS_LEAVES sampleConfig" by simp
  have h3: "getChats ?obs = Some [?g]" by simp
  have h4: "find (\<lambda>c. ch_id c = ''g1'') [?g] = Some ?g" by simp
  have h5: "ch_participants ?g = Some [''A'', ''C'', ''D'']" by simp
  have h6: "distinct (previousMembers ?gi)" by simp
  have h7: "map_of (groupInfoStore sampleWorld) ''g1'' = Some ?gd" by simp
  have h8: "noNotifications ?obs"
    by (simp add: noNotifications_def fetched_def is_notification_def)
  note t = member_diff_events [OF h1 h2 h3 h4 h5 h6 h7 h8]
  have c: "card (set [''A'', ''C'', ''D'']) = 3" by code_simp
  have d: "memberEventsOf JOIN ''D'' (sentEvents (sentSince sampleWorld (snd (checkMessages sampleConfig
         ?obs ''g1'' ?gi sampleWorld))))
       = [\<lparr> e_timestamp = ''2024-05-02T09:00:00.000Z'', e_type = JOIN, e_memberName = ''Unknown'',
             e_memberId = ''D'', e_groupId = ''g1'', e_groupName = ''Cairo Team'' \<rparr>]"
    using t [of "''D''"] by (simp add: createEvent_def)
  have b: "memberEventsOf LEAVE ''B'' (sentEvents (sentSince sampleWorld (snd (checkMessages sampleConfig
         ?obs ''g1'' ?gi sampleWorld))))
       = [\<lparr> e_timestamp = ''2024-05-02T09:00:00.000Z'', e_type = LEAVE, e_memberName = ''Unknown'',
             e_memberId = ''B'', e_groupId = ''g1'', e_groupName = ''Cairo Team'' \<rparr>]"
    using t [of "''B''"] by (simp add: createEvent_def)
  have a: "memberEventsOf JOIN ''A'' (sentEvents (sentSince sampleWorld (snd (checkMessages sampleConfig
         ?obs ''g1'' ?gi sampleWorld)))) = []"
    using t [of "''A''"] by simp
  have n: "map_of (groupInfoStore (snd (checkMessages sampleConfig ?obs ''g1'' ?gi sampleWorld))) ''g1''
       = Some ?gd"
    using t [of "''A''"] c by simp
  show ?thesis using h1 h2 h3 h4 h5 h6 h7 h8 d b a n by blast
qed

text \<open>
  Claim C8, as stated, has a failed pass leave the member snapshot of its group as it was.
  The group has the members A, B and C; the client lists A, C and D, and then
  \<^verbatim>\<open>fetchMessages\<close> throws. The member block has run by then: the snapshot is A, C and D,
  and the JOIN of D and the LEAVE of B have been stored and broadcast.
\<close>

theorem failed_fetch_replaces_members:
  "fetchMessages (sampleAnswers [''A'', ''C'', ''D''] None) = None
   \<and> previousMembers (sampleGroup [''m1''] [''A'', ''B'', ''C''] False) = [''A'', ''B'', ''C'']
   \<and> previousMembers (fst (checkMessages sampleConfig (sampleAnswers [''A'', ''C'', ''D''] None) ''g1''
         (sampleGroup [''m1''] [''A'', ''B'', ''C''] False) sampleWorld)) = [''A'', ''C'', ''D'']
   \<and> sentEvents (sent (snd (checkMessages sampleConfig (sampleAnswers [''A'', ''C'', ''D''] None) ''g1''
         (sampleGroup [''m1''] [''A'', ''B'', ''C''] False) sampleWorld)))
       = [\<lparr> e_timestamp = ''2024-05-02T09:00:00.000Z'', e_type = JOIN, e_memberName = ''Unknown'',
             e_memberId = ''D'', e_groupId = ''g1'', e_groupName = ''Cairo Team'' \<rparr>,
          \<lparr> e_timestamp = ''2024-05-02T09:00:00.000Z'', e_type = LEAVE, e_memberName = ''Unknown'',
             e_memberId = ''B'', e_groupId = ''g1'', e_groupName = ''Cairo Team'' \<rparr>]"
  by code_simp

text \<open>
  Claim C8, as amended. When \<^verbatim>\<open>getChats\<close> throws, the pass changes nothing. When
  \<^verbatim>\<open>fetchMessages\<close> throws, the pass leaves \<^verbatim>\<open>previousMessageIds\<close>, \<^verbatim>\<open>isFirstRun\<close>
  and the messages table as they were, but the member block has run before: with
  join/leave detection on and the participants known, \<^verbatim>\<open>previousMembers\<close> is the set of
  the participants just observed. Whatever happens to the passes of the other groups, a
  group of the registry whose own pass completes, not as its first run, has each of its
  new messages broadcast in the tick.
\<close>

theorem failed_pass_keeps_window_not_members:
  "(getChats obsA = None \<longrightarrow> checkMessages cfg obsA groupId gi w = (gi, w))
   \<and> (getChats obsB = Some chats \<and> find (\<lambda>c. ch_id c = groupId) chats = Some g
        \<and> fetchMessages obsB = None \<longrightarrow>
          previousMessageIds (fst (checkMessages cfg obsB groupId gi w)) = previousMessageIds gi
          \<and> isFirstRun (fst (checkMessages cfg obsB groupId gi w)) = isFirstRun gi
          \<and> db_messages (snd (checkMessages cfg obsB groupId gi w)) = db_messages w
          \<and> previousMembers (fst (checkMessages cfg obsB groupId gi w))
              = (if DETECT_JOINS_LEAVES cfg
                 then (case ch_participants g of Some ps \<Rightarrow> new_Set ps | None \<Rightarrow> previousMembers gi)
                 else previousMembers gi))
   \<and> ((other, giO) \<in> set groups \<and> completes (obs other) other \<and> \<not> isFirstRun giO
        \<and> distinct (map wm_id (fetched (obs other))) \<and> m \<in> set (fetched (obs other))
        \<and> wm_id m \<notin> set (previousMessageIds giO)
        \<and> fst (processMessage (getContactById (obs other)) m (gi_name giO) other w) = Some p \<longrightarrow>
          MessageEnv p \<in> set (sent (snd (checkGroups cfg obs groups w))))"
proof (intro conjI impI)
  assume "getChats obsA = None"
  then show "checkMessages cfg obsA groupId gi w = (gi, w)"
    by (simp add: checkMessages_def)
next
  assume b: "getChats obsB = Some chats \<and> find (\<lambda>c. ch_id c = groupId) chats = Some g
        \<and> fetchMessages obsB = None"
  then have cm: "checkMessages cfg obsB groupId gi w = memberChanges cfg obsB groupId g gi w"
    by (simp add: checkMessages_def case_prod_beta)
  show "previousMessageIds (fst (checkMessages cfg obsB groupId gi w)) = previousMessageIds gi"
    by (simp add: cm memberChanges_info)
  show "isFirstRun (fst (checkMessages cfg obsB groupId gi w)) = isFirstRun gi"
    by (simp add: cm memberChanges_info)
  show "db_messages (snd (checkMessages cfg obsB groupId gi w)) = db_messages w"
    by (simp add: cm memberChanges_db_messages)
  show "previousMembers (fst (checkMessages cfg obsB groupId gi w))
              = (if DETECT_JOINS_LEAVES cfg
                 then (case ch_participants g of Some ps \<Rightarrow> new_Set ps | None \<Rightarrow> previousMembers gi)
                 else previousMembers gi)"
    by (simp only: cm memberChanges_members)
next
  assume c: "(other, giO) \<in> set groups \<and> completes (obs other) other \<and> \<not> isFirstRun giO
        \<and> distinct (map wm_id (fetched (obs other))) \<and> m \<in> set (fetched (obs other))
        \<and> wm_id m \<notin> set (previousMessageIds giO)
        \<and> fst (processMessage (getContactById (obs other)) m (gi_name giO) other w) = Some p"
  then obtain w1 where
    pre: "prefix (sent (snd (checkMessages cfg (obs other) other giO w1)))
            (sent (snd (checkGroups cfg obs groups w)))"
    using checkGroups_pass [of other giO groups cfg obs w] by blast
  have "MessageEnv p \<in> set (sent (snd (checkMessages cfg (obs other) other giO w1)))"
    using c by (intro checkMessages_broadcasts_new [where ?w0.0 = w and m = m]) simp_all
  then show "MessageEnv p \<in> set (sent (snd (checkGroups cfg obs groups w)))"
    using pre set_mono_prefix by blast
qed

theorem failed_pass_keeps_window_not_members_witness:
  "getChats noChats = None
   \<and> checkMessages sampleConfig noChats ''g1'' (sampleGroup [''m1''] [''A'', ''B'', ''C''] False) sampleWorld
       = (sampleGroup [''m1''] [''A'', ''B'', ''C''] False, sampleWorld)
   \<and> getChats (sampleAnswers [''A'', ''C'', ''D''] None) = Some [sampleChat [''A'', ''C'', ''D'']]
   \<and> find (\<lambda>c. ch_id c = ''g1'') [sampleChat [''A'', ''C'', ''D'']] = Some (sampleChat [''A'', ''C'', ''D''])
   \<and> fetchMessages (sampleAnswers [''A'', ''C'', ''D''] None) = None
   \<and> previousMessageIds (fst (checkMessages sampleConfig (sampleAnswers [''A'', ''C'', ''D''] None) ''g1''
         (sampleGroup [''m1''] [''A'', ''B'', ''C''] False) sampleWorld)) = [''m1'']
   \<and> previousMembers (fst (checkMessages sampleConfig (sampleAnswers [''A'', ''C'', ''D''] None) ''g1''
         (sampleGroup [''m1''] [''A'', ''B'', ''C''] False) sampleWorld)) = [''A'', ''C'', ''D'']
   \<and> (''g2'', otherGroup) \<in> set [(''g1'', sampleGroup [''m1''] [''A'', ''B'', ''C''] False), (''g2'', otherGroup)]
   \<and> completes (tickAnswers (sampleAnswers [''A'', ''C'', ''D''] None) ''g2'') ''g2''
   \<and> \<not> isFirstRun otherGroup
   \<and> distinct (map wm_id (fetched (tickAnswers (sampleAnswers [''A'', ''C'', ''D''] None) ''g2'')))
   \<and> textMessage ''m9'' ''news'' \<in> set (fetched (tickAnswers (sampleAnswers [''A'', ''C'', ''D''] None) ''g2''))
   \<and> wm_id (textMessage ''m9'' ''news'') \<notin> set (previousMessageIds otherGroup)
   \<and> fst (processMessage (getContactById (tickAnswers (sampleAnswers [''A'', ''C'', ''D''] None) ''g2''))
         (textMessage ''m9'' ''news'') (gi_name otherGroup) ''g2'' sampleWorld)
       = Some \<lparr> p_id = ''m9'', p_timestamp = ''2024-05-01T10:00:00.000Z'', p_sender = ''2010'',
                 p_senderId = ''2010@c.us'', p_message = ''news'', p_type = ''chat'',
                 p_hasMedia = False, p_groupId = ''g2'', p_groupName = ''Giza Team'' \<rparr>
   \<and> MessageEnv \<lparr> p_id = ''m9'', p_timestamp = ''2024-05-01T10:00:00.000Z'', p_sender = ''2010'',
                 p_senderId = ''2010@c.us'', p_message = ''news'', p_type = ''chat'',
                 p_hasMedia = False, p_groupId = ''g2'', p_groupName = ''Giza Team'' \<rparr>
       \<in> set (sent (snd (checkGroups sampleConfig (tickAnswers (sampleAnswers [''A'', ''C'', ''D''] None))
              [(''g1'', sampleGroup [''m1''] [''A'', ''B'', ''C''] False), (''g2'', otherGroup)] sampleWorld)))"
proof -
  let ?gi = "sampleGroup [''m1''] [''A'', ''B'', ''C''] False"
  let ?B = "sampleAnswers [''A'', ''C'', ''D''] None"
  let ?P = "\<lparr> p_id = ''m9'', p_timestamp = ''2024-05-01T10:00:00.000Z'', p_sender = ''2010'',
                 p_senderId = ''2010@c.us'', p_message = ''news'', p_type = ''chat'',
                 p_hasMedia = False, p_groupId = ''g2'', p_groupName = ''Giza Team'' \<rparr>"
  note t = failed_pass_keeps_window_not_members [of noChats sampleConfig "''g1''" ?gi sampleWorld
      ?B "[sampleChat [''A'', ''C'', ''D'']]" "sampleChat [''A'', ''C'', ''D'']"
      "''g2''" otherGroup "[(''g1'', ?gi), (''g2'', otherGroup)]" "tickAnswers ?B"
      "textMessage ''m9'' ''news''" ?P]
  have h1: "getChats noChats = None" by simp
  have h2: "getChats ?B = Some [sampleChat [''A'', ''C'', ''D'']]
      \<and> find (\<lambda>c. ch_id c = ''g1'') [sampleChat [''A'', ''C'', ''D'']] = Some (sampleChat [''A'', ''C'', ''D''])
      \<and> fetchMessages ?B = None" by simp
  have p: "fst (processMessage (getContactById (tickAnswers ?B ''g2''))
         (textMessage ''m9'' ''news'') (gi_name otherGroup) ''g2'' sampleWorld) = Some ?P"
    by code_simp
  have h3: "(''g2'', otherGroup) \<in> set [(''g1'', ?gi), (''g2'', otherGroup)]
      \<and> completes (tickAnswers ?B ''g2'') ''g2'' \<and> \<not> isFirstRun otherGroup
      \<and> distinct (map wm_id (fetched (tickAnswers ?B ''g2'')))
      \<and> textMessage ''m9'' ''news'' \<in> set (fetched (tickAnswers ?B ''g2''))
      \<and> wm_id (textMessage ''m9'' ''news'') \<notin> set (previousMessageIds otherGroup)"
    by (simp add: completes_def fetched_def)
  have a: "checkMessages sampleConfig noChats ''g1'' ?gi sampleWorld = (?gi, sampleWorld)"
    using t h1 by blast
  have b: "previousMessageIds (fst (checkMessages sampleConfig ?B ''g1'' ?gi sampleWorld)) = [''m1'']"
    using t h2 by simp
  have "previousMembers (fst (checkMessages sampleConfig ?B ''g1'' ?gi sampleWorld))
      = (if DETECT_JOINS_LEAVES sampleConfig
         then (case ch_participants (sampleChat [''A'', ''C'', ''D'']) of
                 Some ps \<Rightarrow> new_Set ps | None \<Rightarrow> previousMembers ?gi)
         else previousMembers ?gi)"
    using t h2 by blast
  then have c: "previousMembers (fst (checkMessages sampleConfig ?B ''g1'' ?gi sampleWorld))
      = [''A'', ''C'', ''D'']"
    by (simp add: new_Set_def set_add_def)
  have d: "MessageEnv ?P \<in> set (sent (snd (checkGroups sampleConfig (tickAnswers ?B)
              [(''g1'', ?gi), (''g2'', otherGroup)] sampleWorld)))"
    using t h3 p by blast
  show ?thesis
    using h1 h2 h3 p a b c d by blast
qed

section \<open>Sample chat of 101 messages\<close>

lemma sample_101_ids:
  "100 < card (set (concat (map (map wm_id) [map sampleMessage [1..<102]])))"
  by code_simp

lemma sample_twice:
  "mostRecent 100 (newIds [map sampleMessage [1..<102], map sampleMessage [1..<102]] [])
     = map sampleId ([3..<102] @ [1])"
  by code_simp

lemma sample_first_seen:
  "mostRecent 100 (new_Set (map wm_id (map sampleMessage [1..<102] @ map sampleMessage [1..<102])))
     = map sampleId [2..<102]"
  by code_simp

lemma sample_differ: "map sampleId ([3..<102] @ [1]) \<noteq> map sampleId [2..<102]"
  by code_simp

lemma sample_completes:
  "completes (sampleAnswers [''A''] (Some (map sampleMessage [1..<102]))) ''g1''"
  by (simp add: completes_def)

lemma sample_fetched:
  "fetched (sampleAnswers [''A''] (Some (map sampleMessage [1..<102]))) = map sampleMessage [1..<102]"
  by (simp add: fetched_def)

text \<open>
  Claim C9, as stated, has the window hold the 100 ids that were first observed most
  recently. With \<^verbatim>\<open>messageLimit\<close> 101 and a chat of 101 messages, the first pass leaves
  the ids 2 to 101 in the window. The second pass fetches the same messages: the id 1 is
  not in the window, so the message counts as new again, and its id enters the window at
  the end while the id 2 is dropped. The ids first observed most recently are 2 to 101;
  the window holds 3 to 101 and 1.
\<close>

theorem refetched_id_returns_to_window:
  "previousMessageIds (fst (runPasses \<lparr> MESSAGE_LIMIT = 101, DETECT_JOINS_LEAVES = True \<rparr>
       [sampleAnswers [''A''] (Some (map sampleMessage [1..<102])),
        sampleAnswers [''A''] (Some (map sampleMessage [1..<102]))] ''g1''
       (sampleGroup [] [''A''] True) sampleWorld))
     = map sampleId ([3..<102] @ [1])
   \<and> mostRecent 100 (new_Set (map wm_id
         (fetched (sampleAnswers [''A''] (Some (map sampleMessage [1..<102])))
          @ fetched (sampleAnswers [''A''] (Some (map sampleMessage [1..<102]))))))
     = map sampleId [2..<102]
   \<and> map sampleId ([3..<102] @ [1]) \<noteq> map sampleId [2..<102]"
proof -
  let ?A = "sampleAnswers [''A''] (Some (map sampleMessage [1..<102]))"
  let ?cfg = "\<lparr> MESSAGE_LIMIT = 101, DETECT_JOINS_LEAVES = True \<rparr>"
  have "previousMessageIds (fst (runPasses ?cfg [?A, ?A] ''g1'' (sampleGroup [] [''A''] True) sampleWorld))
      = mostRecent 100 (newIds (map fetched (filter (\<lambda>obs. completes obs ''g1'') [?A, ?A])) [])"
    using runPasses_window [of "sampleGroup [] [''A''] True" ?cfg "[?A, ?A]" "''g1''" sampleWorld]
    by simp
  also have "\<dots> = mostRecent 100 (newIds [map sampleMessage [1..<102], map sampleMessage [1..<102]] [])"
    by (simp only: sample_completes sample_fetched filter.simps list.map if_True)
  also have "\<dots> = map sampleId ([3..<102] @ [1])"
    by (rule sample_twice)
  finally have a: "previousMessageIds (fst (runPasses ?cfg [?A, ?A] ''g1''
       (sampleGroup [] [''A''] True) sampleWorld)) = map sampleId ([3..<102] @ [1])" .
  have b: "mostRecent 100 (new_Set (map wm_id (fetched ?A @ fetched ?A))) = map sampleId [2..<102]"
    by (simp only: sample_fetched sample_first_seen)
  show ?thesis using a b sample_differ by blast
qed

text \<open>
  Claim C9, as amended. At the end of a completed pass the window holds at most 100 ids.
  For a group that starts with an empty window it holds, after any passes, the last 100 of
  the ids in the order in which the passes classified them as new (all of them while they
  are fewer), each id once; once more than 100 distinct ids have been fetched it holds
  exactly 100. A fetched message is classified as new exactly when its id is not in the
  window as the messages before it have left it, and its id is then added at the end.
\<close>

theorem window_of_recent_ids:
  "(completes obs groupId \<longrightarrow>
      length (previousMessageIds (fst (checkMessages cfg obs groupId gi w))) \<le> 100)
   \<and> (previousMessageIds gi = [] \<longrightarrow>
        previousMessageIds (fst (runPasses cfg obss groupId gi w))
          = mostRecent 100 (newIds (map fetched (filter (\<lambda>obs. completes obs groupId) obss)) [])
        \<and> distinct (previousMessageIds (fst (runPasses cfg obss groupId gi w)))
        \<and> (100 < card (set (concat (map (map wm_id)
                     (map fetched (filter (\<lambda>obs. completes obs groupId) obss))))) \<longrightarrow>
             length (previousMessageIds (fst (runPasses cfg obss groupId gi w))) = 100))
   \<and> detectNew (pre @ [msg]) ids =
        (if wm_id msg \<notin> set (snd (detectNew pre ids))
         then (fst (detectNew pre ids) @ [msg], snd (detectNew pre ids) @ [wm_id msg])
         else detectNew pre ids)"
proof (intro conjI impI)
  assume "completes obs groupId"
  then show "length (previousMessageIds (fst (checkMessages cfg obs groupId gi w))) \<le> 100"
    by (simp add: checkMessages_window trimIds_mostRecent mostRecent_length)
next
  assume e: "previousMessageIds gi = []"
  then show win: "previousMessageIds (fst (runPasses cfg obss groupId gi w))
          = mostRecent 100 (newIds (map fetched (filter (\<lambda>obs. completes obs groupId) obss)) [])"
    using runPasses_window [of gi cfg obss groupId w] by simp
  show "distinct (previousMessageIds (fst (runPasses cfg obss groupId gi w)))"
    using e by (simp add: runPasses_window_distinct)
  assume "100 < card (set (concat (map (map wm_id)
                     (map fetched (filter (\<lambda>obs. completes obs groupId) obss)))))"
  then show "length (previousMessageIds (fst (runPasses cfg obss groupId gi w))) = 100"
    unfolding win by (rule many_ids_fill_window)
next
  show "detectNew (pre @ [msg]) ids =
        (if wm_id msg \<notin> set (snd (detectNew pre ids))
         then (fst (detectNew pre ids) @ [msg], snd (detectNew pre ids) @ [wm_id msg])
         else detectNew pre ids)"
    by (rule detectNew_snoc)
qed

theorem window_of_recent_ids_witness:
  "completes (sampleAnswers [''A''] (Some (map sampleMessage [1..<102]))) ''g1''
   \<and> previousMessageIds (sampleGroup [] [''A''] True) = []
   \<and> 100 < card (set (concat (map (map wm_id) (map fetched
         (filter (\<lambda>obs. completes obs ''g1'')
            [sampleAnswers [''A''] (Some (map sampleMessage [1..<102]))])))))
   \<and> length (previousMessageIds (fst (checkMessages \<lparr> MESSAGE_LIMIT = 101, DETECT_JOINS_LEAVES = True \<rparr>
         (sampleAnswers [''A''] (Some (map sampleMessage [1..<102]))) ''g1''
         (sampleGroup [] [''A''] True) sampleWorld))) \<le> 100
   \<and> length (previousMessageIds (fst (runPasses \<lparr> MESSAGE_LIMIT = 101, DETECT_JOINS_LEAVES = True \<rparr>
         [sampleAnswers [''A''] (Some (map sampleMessage [1..<102]))] ''g1''
         (sampleGroup [] [''A''] True) sampleWorld))) = 100"
proof -
  let ?A = "sampleAnswers [''A''] (Some (map sampleMessage [1..<102]))"
  let ?cfg = "\<lparr> MESSAGE_LIMIT = 101, DETECT_JOINS_LEAVES = True \<rparr>"
  have e: "previousMessageIds (sampleGroup [] [''A''] True) = []" by simp
  have n: "100 < card (set (concat (map (map wm_id) (map fetched
         (filter (\<lambda>obs. completes obs ''g1'') [?A])))))"
    using sample_101_ids by (simp only: sample_completes sample_fetched filter.simps list.map if_True)
  note t = window_of_recent_ids [of ?A "''g1''" ?cfg "sampleGroup [] [''A''] True" sampleWorld "[?A]"]
  have a: "length (previousMessageIds (fst (checkMessages ?cfg ?A ''g1''
         (sampleGroup [] [''A''] True) sampleWorld))) \<le> 100"
    using t sample_completes by blast
  have b: "length (previousMessageIds (fst (runPasses ?cfg [?A] ''g1''
         (sampleGroup [] [''A''] True) sampleWorld))) = 100"
    using t e n by blast
  show ?thesis using sample_completes e n a b by blast
qed

section \<open>Searching\<close>

lemma orderByTimestampDesc_sorted:
  "sorted_wrt (\<lambda>a b. m_timestamp b \<le> m_timestamp a) (orderByTimestampDesc rows)"
proof -
  have "sorted (map m_timestamp (sort_key m_timestamp (rev rows)))"
    by (rule sorted_sort_key)
  then have "sorted_wrt (\<lambda>a b. m_timestamp a \<le> m_timestamp b) (sort_key m_timestamp (rev rows))"
    by (simp add: sorted_wrt_map)
  then show ?thesis
    by (simp add: orderByTimestampDesc_def sorted_wrt_rev)
qed

lemma orderByTimestampDesc_set [simp]: "set (orderByTimestampDesc rows) = set rows"
  by (simp add: orderByTimestampDesc_def)

lemma orderByTimestampDesc_length [simp]: "length (orderByTimestampDesc rows) = length rows"
  by (simp add: orderByTimestampDesc_def)

lemma sqlLimit_sorted:
  "sorted_wrt P rows \<Longrightarrow> sorted_wrt P (sqlLimit n rows)"
  by (simp add: sqlLimit_def sorted_wrt_take)

lemma sqlLimit_set: "set (sqlLimit n rows) \<subseteq> set rows"
  by (auto simp: sqlLimit_def dest: in_set_takeD)

text \<open>The three replies to a query that is not empty, by the limit.\<close>

lemma search_ok:
  assumes "query \<noteq> []" and "searchLimit param = Num n" and "- (2 ^ 63) < n" and "n < 2 ^ 63"
  shows "search tbl query groupId param =
     SearchOk200 \<lparr> results = sqlLimit n (orderByTimestampDesc (searchMatches tbl query groupId)),
            total = length (sqlLimit n (orderByTimestampDesc (searchMatches tbl query groupId))),
            hasMore = (n = int (length (sqlLimit n
                 (orderByTimestampDesc (searchMatches tbl query groupId))))) \<rparr>"
  using assms by (simp add: search_def Let_def boundLimit_def)

lemma search_failed:
  assumes "query \<noteq> []" and "searchLimit param = Num n" and "2 ^ 63 \<le> n"
  shows "search tbl query groupId param = SearchFailed500"
  using assms by (simp add: search_def Let_def boundLimit_def)

text \<open>
  Claim C10, as stated, bounds the rows of every reply by the limit. The handler passes a
  negative limit on to SQLite, which then puts no bound on the rows: with the limit
  \<open>-1\<close> the reply holds both matches, and \<open>hasMore\<close> is false.
\<close>

theorem search_negative_limit:
  "searchLimit (Num (- 1)) = Num (- 1)
   \<and> search
        [sampleRow ''m1'' ''Hello'' ''2024-05-01T10:00:00.000Z'',
         sampleRow ''m2'' ''bye'' ''2024-05-01T10:30:00.000Z'',
         sampleRow ''m3'' ''hello again'' ''2024-05-01T11:00:00.000Z''] ''hello'' [] (Num (- 1))
      = SearchOk200 \<lparr> results = [sampleRow ''m3'' ''hello again'' ''2024-05-01T11:00:00.000Z'',
                          sampleRow ''m1'' ''Hello'' ''2024-05-01T10:00:00.000Z''],
                total = 2, hasMore = False \<rparr>"
  by code_simp

text \<open>
  Claim C10, as amended. With a positive limit below \<open>2\<^sup>6\<^sup>3\<close> the reply to a search
  holds at most that many rows, all of them rows that match, in descending order of their
  timestamps, and \<open>hasMore\<close> is true exactly when the number of rows equals the limit. So
  when exactly as many rows match as the limit allows, the reply holds them all and still
  says \<open>hasMore\<close>. With a limit of \<open>2\<^sup>6\<^sup>3\<close> or more the statement fails and the reply
  is the error of status 500. With a negative limit above \<open>-2\<^sup>6\<^sup>3\<close> the reply
  holds every row that matches, and \<open>hasMore\<close> is false.
\<close>

theorem search_limit_and_hasMore:
  assumes "query \<noteq> []"
  shows "(searchLimit param = Num n \<and> 0 < n \<and> n < 2 ^ 63 \<longrightarrow>
      (\<exists>r. search tbl query groupId param = SearchOk200 r
         \<and> length (results r) \<le> nat n
         \<and> set (results r) \<subseteq> set (searchMatches tbl query groupId)
         \<and> sorted_wrt (\<lambda>a b. m_timestamp b \<le> m_timestamp a) (results r)
         \<and> total r = length (results r)
         \<and> hasMore r = (length (results r) = nat n)
         \<and> (length (searchMatches tbl query groupId) = nat n
              \<longrightarrow> hasMore r \<and> set (results r) = set (searchMatches tbl query groupId)
                  \<and> length (results r) = length (searchMatches tbl query groupId))))
   \<and> (searchLimit large = Num l \<and> 2 ^ 63 \<le> l \<longrightarrow>
        search tbl query groupId large = SearchFailed500)
   \<and> (searchLimit negative = Num m \<and> - (2 ^ 63) < m \<and> m < 0 \<longrightarrow>
        search tbl query groupId negative =
          SearchOk200 \<lparr> results = orderByTimestampDesc (searchMatches tbl query groupId),
                        total = length (searchMatches tbl query groupId), hasMore = False \<rparr>)"
proof (intro conjI impI)
  assume a: "searchLimit param = Num n \<and> 0 < n \<and> n < 2 ^ 63"
  let ?all = "orderByTimestampDesc (searchMatches tbl query groupId)"
  let ?rows = "sqlLimit n ?all"
  let ?r = "\<lparr> results = ?rows, total = length ?rows, hasMore = (n = int (length ?rows)) \<rparr>"
  have rows: "?rows = take (nat n) ?all"
    using a by (simp add: sqlLimit_def)
  have 1: "search tbl query groupId param = SearchOk200 ?r"
    using assms a by (intro search_ok) simp_all
  have 2: "length ?rows \<le> nat n"
    by (simp add: rows)
  have 3: "set ?rows \<subseteq> set (searchMatches tbl query groupId)"
    using sqlLimit_set [of n ?all] by simp
  have 4: "sorted_wrt (\<lambda>a b. m_timestamp b \<le> m_timestamp a) ?rows"
    by (rule sqlLimit_sorted) (rule orderByTimestampDesc_sorted)
  have 5: "(n = int (length ?rows)) = (length ?rows = nat n)"
    using a by auto
  have 6: "length (searchMatches tbl query groupId) = nat n \<longrightarrow> ?rows = ?all"
    by (simp add: rows)
  have 7: "length (searchMatches tbl query groupId) = nat n \<longrightarrow> n = int (length ?rows)"
    using a by (auto simp: rows)
  show "\<exists>r. search tbl query groupId param = SearchOk200 r
         \<and> length (results r) \<le> nat n
         \<and> set (results r) \<subseteq> set (searchMatches tbl query groupId)
         \<and> sorted_wrt (\<lambda>a b. m_timestamp b \<le> m_timestamp a) (results r)
         \<and> total r = length (results r)
         \<and> hasMore r = (length (results r) = nat n)
         \<and> (length (searchMatches tbl query groupId) = nat n
              \<longrightarrow> hasMore r \<and> set (results r) = set (searchMatches tbl query groupId)
                  \<and> length (results r) = length (searchMatches tbl query groupId))"
    using 1 2 3 4 5 6 7 by (intro exI [of _ ?r]) (simp del: orderByTimestampDesc_set, auto)
next
  assume "searchLimit large = Num l \<and> 2 ^ 63 \<le> l"
  then show "search tbl query groupId large = SearchFailed500"
    using assms by (intro search_failed [of query large l]) simp_all
next
  assume a: "searchLimit negative = Num m \<and> - (2 ^ 63) < m \<and> m < 0"
  then have "search tbl query groupId negative =
     SearchOk200 \<lparr> results = sqlLimit m (orderByTimestampDesc (searchMatches tbl query groupId)),
            total = length (sqlLimit m (orderByTimestampDesc (searchMatches tbl query groupId))),
            hasMore = (m = int (length (sqlLimit m
                 (orderByTimestampDesc (searchMatches tbl query groupId))))) \<rparr>"
    using assms by (intro search_ok) simp_all
  then show "search tbl query groupId negative =
          SearchOk200 \<lparr> results = orderByTimestampDesc (searchMatches tbl query groupId),
                        total = length (searchMatches tbl query groupId), hasMore = False \<rparr>"
    using a by (simp add: sqlLimit_def)
qed

theorem search_limit_and_hasMore_witness:
  "''hello'' \<noteq> [] \<and> searchLimit (Num 2) = Num 2 \<and> (0 :: int) < 2 \<and> (2 :: int) < 2 ^ 63
   \<and> length (searchMatches
        [sampleRow ''m1'' ''Hello'' ''2024-05-01T10:00:00.000Z'',
         sampleRow ''m2'' ''bye'' ''2024-05-01T10:30:00.000Z'',
         sampleRow ''m3'' ''hello again'' ''2024-05-01T11:00:00.000Z''] ''hello'' []) = nat 2
   \<and> (\<exists>r. search
        [sampleRow ''m1'' ''Hello'' ''2024-05-01T10:00:00.000Z'',
         sampleRow ''m2'' ''bye'' ''2024-05-01T10:30:00.000Z'',
         sampleRow ''m3'' ''hello again'' ''2024-05-01T11:00:00.000Z''] ''hello'' [] (Num 2) = SearchOk200 r
      \<and> hasMore r \<and> length (results r) = 2
      \<and> set (results r) = set (searchMatches
        [sampleRow ''m1'' ''Hello'' ''2024-05-01T10:00:00.000Z'',
         sampleRow ''m2'' ''bye'' ''2024-05-01T10:30:00.000Z'',
         sampleRow ''m3'' ''hello again'' ''2024-05-01T11:00:00.000Z''] ''hello'' []))
   \<and> searchLimit (Num 100000000000000000000) = Num 100000000000000000000
   \<and> (2 :: int) ^ 63 \<le> 100000000000000000000
   \<and> search
        [sampleRow ''m1'' ''Hello'' ''2024-05-01T10:00:00.000Z'',
         sampleRow ''m2'' ''bye'' ''2024-05-01T10:30:00.000Z'',
         sampleRow ''m3'' ''hello again'' ''2024-05-01T11:00:00.000Z''] ''hello'' []
        (Num 100000000000000000000) = SearchFailed500
   \<and> searchLimit (Num (- 5)) = Num (- 5) \<and> - (2 ^ 63) < (- 5 :: int) \<and> (- 5 :: int) < 0
   \<and> search
        [sampleRow ''m1'' ''Hello'' ''2024-05-01T10:00:00.000Z'',
         sampleRow ''m2'' ''bye'' ''2024-05-01T10:30:00.000Z'',
         sampleRow ''m3'' ''hello again'' ''2024-05-01T11:00:00.000Z''] ''hello'' [] (Num (- 5))
      = SearchOk200 \<lparr> results = [sampleRow ''m3'' ''hello again'' ''2024-05-01T11:00:00.000Z'',
                          sampleRow ''m1'' ''Hello'' ''2024-05-01T10:00:00.000Z''],
                total = 2, hasMore = False \<rparr>"
proof -
  let ?tbl = "[sampleRow ''m1'' ''Hello'' ''2024-05-01T10:00:00.000Z'',
         sampleRow ''m2'' ''bye'' ''2024-05-01T10:30:00.000Z'',
         sampleRow ''m3'' ''hello again'' ''2024-05-01T11:00:00.000Z'']"
  have q: "''hello'' \<noteq> []" by simp
  note t = search_limit_and_hasMore [OF q, where tbl = ?tbl and groupId = "[]"
      and param = "Num 2" and n = 2
      and large = "Num 100000000000000000000" and l = 100000000000000000000
      and negative = "Num (- 5)" and m = "- 5"]
  have l: "searchLimit (Num 2) = Num 2 \<and> (0 :: int) < 2 \<and> (2 :: int) < 2 ^ 63"
    by (simp add: searchLimit_def)
  have b: "searchLimit (Num 100000000000000000000) = Num 100000000000000000000
      \<and> (2 :: int) ^ 63 \<le> 100000000000000000000"
    by (simp add: searchLimit_def)
  have g: "searchLimit (Num (- 5)) = Num (- 5) \<and> - (2 ^ 63) < (- 5 :: int) \<and> (- 5 :: int) < 0"
    by (simp add: searchLimit_def)
  have n: "length (searchMatches ?tbl ''hello'' []) = nat 2"
    by code_simp
  from t l obtain r where r: "search ?tbl ''hello'' [] (Num 2) = SearchOk200 r"
    and m: "length (searchMatches ?tbl ''hello'' []) = nat 2
          \<longrightarrow> hasMore r \<and> set (results r) = set (searchMatches ?tbl ''hello'' [])
              \<and> length (results r) = length (searchMatches ?tbl ''hello'' [])"
    by blast
  from m n have h: "hasMore r" and s: "set (results r) = set (searchMatches ?tbl ''hello'' [])"
    and len: "length (results r) = length (searchMatches ?tbl ''hello'' [])"
    by blast+
  from len n have len2: "length (results r) = 2" by simp
  have 1: "\<exists>r. search ?tbl ''hello'' [] (Num 2) = SearchOk200 r \<and> hasMore r \<and> length (results r) = 2
      \<and> set (results r) = set (searchMatches ?tbl ''hello'' [])"
    using r h len2 s by blast
  have 2: "search ?tbl ''hello'' [] (Num 100000000000000000000) = SearchFailed500"
    using t b by blast
  have "search ?tbl ''hello'' [] (Num (- 5))
      = SearchOk200 \<lparr> results = orderByTimestampDesc (searchMatches ?tbl ''hello'' []),
                      total = length (searchMatches ?tbl ''hello'' []), hasMore = False \<rparr>"
    using t g by blast
  moreover have "orderByTimestampDesc (searchMatches ?tbl ''hello'' [])
      = [sampleRow ''m3'' ''hello again'' ''2024-05-01T11:00:00.000Z'',
         sampleRow ''m1'' ''Hello'' ''2024-05-01T10:00:00.000Z'']"
    by code_simp
  ultimately have 3: "search ?tbl ''hello'' [] (Num (- 5))
      = SearchOk200 \<lparr> results = [sampleRow ''m3'' ''hello again'' ''2024-05-01T11:00:00.000Z'',
                          sampleRow ''m1'' ''Hello'' ''2024-05-01T10:00:00.000Z''],
                total = 2, hasMore = False \<rparr>"
    using n by simp
  show ?thesis
    using q l n 1 b 2 g 3 by blast
qed


end
